theory Spec2Isabelle
  imports Complex_Main
begin

section \<open>Strings and numbers of the host language\<close>

text \<open>
  Strings are lists of code units; the model covers the code units U+0000 to U+00FF, which
  is what \<^typ>\<open>char\<close> holds. Within that range the regular-expression class \<open>\s\<close> and the
  characters removed by \<open>trim\<close> are the same seven characters: tab, line feed, vertical
  tab, form feed, carriage return, space and no-break space.
\<close>

definition is_space :: "char \<Rightarrow> bool" where
  "is_space c \<longleftrightarrow>
     c \<in> {CHR 0x09, CHR 0x0A, CHR 0x0B, CHR 0x0C, CHR 0x0D, CHR '' '', CHR 0xA0}"

fun starts_with :: "('a \<Rightarrow> bool) \<Rightarrow> 'a list \<Rightarrow> bool" where
  "starts_with P [] = False"
| "starts_with P (c # cs) = P c"

text \<open>\<open>xs.join(sep)\<close>.\<close>

fun join :: "'a list \<Rightarrow> 'a list list \<Rightarrow> 'a list" where
  "join sep [] = []"
| "join sep [x] = x"
| "join sep (x # y # ys) = x @ sep @ join sep (y # ys)"

text \<open>\<open>str.replace(/x/g, rep)\<close> for a pattern \<open>x\<close> that is one literal character.\<close>

definition replace_char :: "char \<Rightarrow> string \<Rightarrow> string \<Rightarrow> string" where
  "replace_char x rep str = concat (map (\<lambda>c. if c = x then rep else [c]) str)"

text \<open>Decimal digits of a natural number, as \<open>String(n)\<close> prints an array index.\<close>

fun digits :: "nat \<Rightarrow> string" where
  "digits n =
     (if n < 10 then [''0123456789'' ! n]
      else digits (n div 10) @ [''0123456789'' ! (n mod 10)])"

declare digits.simps [simp del]

text \<open>
  A Number is represented by what decides its printed form: not-a-number, an infinity
  (\<open>True\<close> for the negative one), zero, or a finite non-zero value given by its sign
  (\<open>True\<close> for negative), the integer \<open>s\<close> of its shortest decimal digit string and the
  decimal exponent \<open>n\<close>, so that the value is \<open>\<plusminus> 0.d\<^sub>1\<dots>d\<^sub>k \<times> 10\<^sup>n\<close> where \<open>d\<^sub>1\<dots>d\<^sub>k\<close> are the
  digits of \<open>s\<close>. \<open>numberToString\<close> is the language's Number-to-String conversion, which
  a template literal applies to an interpolated number.
\<close>

datatype jsnumber = NaN | Infinity bool | Zero | Finite bool nat int

definition finiteToString :: "nat \<Rightarrow> int \<Rightarrow> string" where
  "finiteToString s n =
     (let ds = digits s; k = int (length ds) in
      if k \<le> n \<and> n \<le> 21 then ds @ replicate (nat (n - k)) CHR ''0''
      else if 0 < n \<and> n \<le> 21 then take (nat n) ds @ ''.'' @ drop (nat n) ds
      else if - 6 < n \<and> n \<le> 0 then ''0.'' @ replicate (nat (- n)) CHR ''0'' @ ds
      else
        (let e = n - 1;
             sgn = (if e < 0 then ''-'' else ''+'');
             es = digits (nat \<bar>e\<bar>)
         in if k = 1 then ds @ ''e'' @ sgn @ es
            else take 1 ds @ ''.'' @ drop 1 ds @ ''e'' @ sgn @ es))"

fun numberToString :: "jsnumber \<Rightarrow> string" where
  "numberToString NaN = ''NaN''"
| "numberToString (Infinity neg) = (if neg then ''-Infinity'' else ''Infinity'')"
| "numberToString Zero = ''0''"
| "numberToString (Finite neg s n) = (if neg then ''-'' else []) @ finiteToString s n"

definition booleanToString :: "bool \<Rightarrow> string" where
  "booleanToString b = (if b then ''true'' else ''false'')"


section \<open>The add-vessel dialog: state and parameter document\<close>

text \<open>The keys of \<open>physicsModes\<close> and \<open>physicsConfig\<close>, in the order the state object lists them.\<close>

datatype PhysicsMode = Aerial | Surface | Underwater

fun modeKey :: "PhysicsMode \<Rightarrow> string" where
  "modeKey Aerial = ''aerial''"
| "modeKey Surface = ''surface''"
| "modeKey Underwater = ''underwater''"

definition physicsModeKeys :: "PhysicsMode list" where
  "physicsModeKeys = [Aerial, Surface, Underwater]"

record PhysicsModeConfig =
  connectionType :: string
  uri :: string
  thrusters :: "string list"

text \<open>The \<open>waypointFollower\<close> state object; \<open>line\<close> and \<open>circle\<close> are flattened.\<close>

record WaypointFollower =
  enabled :: bool
  loop :: bool
  linearAccLimit :: jsnumber
  angularAccLimit :: jsnumber
  angularVelLimit :: jsnumber
  mode :: string
  waypoints :: "(jsnumber \<times> jsnumber) list"
  line_direction :: jsnumber
  line_length :: jsnumber
  circle_radius :: jsnumber

text \<open>
  The component state that \<open>generateLotusParamXML\<close> reads. \<open>physicsEnabled\<close> and
  \<open>renderEnabled\<close> are \<open>plugins["physics engine"]\<close> and \<open>plugins["rendering engine"]\<close>.
\<close>

record AddVesselState =
  physicsEnabled :: bool
  renderEnabled :: bool
  rendererType :: string
  publishRender :: bool
  physicsModes :: "PhysicsMode \<Rightarrow> bool"
  physicsConfig :: "PhysicsMode \<Rightarrow> PhysicsModeConfig"
  initState :: string
  waypointFollower :: WaypointFollower

definition escapeXml :: "string \<Rightarrow> string" where
  "escapeXml str =
     replace_char (CHR 0x27) ''&apos;''
       (replace_char (CHR 0x22) ''&quot;''
         (replace_char CHR ''>'' ''&gt;''
           (replace_char CHR ''<'' ''&lt;''
             (replace_char CHR ''&'' ''&amp;'' str))))"

definition renderInterface :: "AddVesselState \<Rightarrow> string" where
  "renderInterface st =
     (if renderEnabled st then
        ''\<newline>      <render_interface>\<newline>        <publish_render>''
        @ booleanToString (publishRender st)
        @ ''</publish_render>\<newline>        <renderer_type_name>''
        @ escapeXml (rendererType st)
        @ ''</renderer_type_name>\<newline>      </render_interface>''
      else [])"

definition thrusterXml :: "nat \<times> string \<Rightarrow> string" where
  "thrusterXml p =
     (case p of (idx, thruster) \<Rightarrow>
        ''        <thrusters'' @ digits (idx + 1) @ ''>''
        @ escapeXml thruster
        @ ''</thrusters'' @ digits (idx + 1) @ ''>'')"

definition thrustersXml :: "string list \<Rightarrow> string" where
  "thrustersXml ts = join ''\<newline>'' (map thrusterXml (enumerate 0 ts))"

definition physicsPart :: "AddVesselState \<Rightarrow> PhysicsMode \<Rightarrow> string" where
  "physicsPart st m =
     (let config = physicsConfig st m in
        ''\<newline>        <'' @ modeKey m
        @ ''>\<newline>          <ConnectionType>''
        @ escapeXml (connectionType config)
        @ ''</ConnectionType>                        \<newline>          <uri>''
        @ escapeXml (uri config)
        @ ''</uri>\<newline>          <thrusters>\<newline>    ''
        @ thrustersXml (thrusters config)
        @ ''\<newline>          </thrusters>\<newline>        </'' @ modeKey m
        @ ''>'')"

definition physicsParts :: "AddVesselState \<Rightarrow> string" where
  "physicsParts st =
     join [] (map (physicsPart st) (filter (physicsModes st) physicsModeKeys))"

definition physicsEngineInterface :: "AddVesselState \<Rightarrow> string" where
  "physicsEngineInterface st =
     (if physicsEnabled st then
        ''\<newline>      <physics_engine_interface>''
        @ physicsParts st
        @ ''\<newline>        <init_state>''
        @ escapeXml (initState st)
        @ ''</init_state>\<newline>      </physics_engine_interface>''
      else [])"

definition commonLimits :: "WaypointFollower \<Rightarrow> string" where
  "commonLimits w =
     ''\<newline>      <loop>''
     @ booleanToString (loop w)
     @ ''</loop>\<newline>      <linear_acceleration_limit>''
     @ numberToString (linearAccLimit w)
     @ ''</linear_acceleration_limit>\<newline>      <angular_acceleration_limit>''
     @ numberToString (angularAccLimit w)
     @ ''</angular_acceleration_limit>\<newline>      <angular_velocity_limit>''
     @ numberToString (angularVelLimit w)
     @ ''</angular_velocity_limit>\<newline>    ''"

definition waypointXml :: "jsnumber \<times> jsnumber \<Rightarrow> string" where
  "waypointXml wp =
     (case wp of (lat, lng) \<Rightarrow>
        ''<waypoint>'' @ numberToString lat @ '' '' @ numberToString lng @ ''</waypoint>'')"

definition waypointsFollower :: "WaypointFollower \<Rightarrow> string" where
  "waypointsFollower w =
     ''\<newline>        <follower>\<newline>          ''
     @ commonLimits w
     @ ''\<newline>          <waypoints>\<newline>            ''
     @ join [] (map waypointXml (waypoints w))
     @ ''\<newline>          </waypoints>\<newline>        </follower>''"

definition lineFollower :: "WaypointFollower \<Rightarrow> string" where
  "lineFollower w =
     ''\<newline>        <follower>\<newline>          ''
     @ commonLimits w
     @ ''\<newline>          <line>\<newline>            <direction>''
     @ numberToString (line_direction w)
     @ ''</direction>\<newline>            <length>''
     @ numberToString (line_length w)
     @ ''</length>\<newline>          </line>\<newline>        </follower>''"

definition circleFollower :: "WaypointFollower \<Rightarrow> string" where
  "circleFollower w =
     ''\<newline>        <follower>\<newline>          ''
     @ commonLimits w
     @ ''\<newline>          <circle>\<newline>            <radius>''
     @ numberToString (circle_radius w)
     @ ''</radius>\<newline>          </circle>\<newline>        </follower>''"

text \<open>The \<open>followers\<close> array after the three \<open>if\<close> statements, each of which may push.\<close>

definition followers :: "WaypointFollower \<Rightarrow> string list" where
  "followers w =
     (if mode w = ''waypoints'' \<and> length (waypoints w) > 0 then [waypointsFollower w] else [])
     @ (if mode w = ''line'' then [lineFollower w] else [])
     @ (if mode w = ''circle'' then [circleFollower w] else [])"

definition waypointFollowerInterface :: "AddVesselState \<Rightarrow> string" where
  "waypointFollowerInterface st =
     (if enabled (waypointFollower st) then
        ''\<newline>      <waypoint_follower>\<newline>        ''
        @ join [] (followers (waypointFollower st))
        @ ''\<newline>      </waypoint_follower>''
      else [])"

text \<open>The four passes applied to the assembled document, in the order of the source.\<close>

text \<open>\<open>.replace(/[\n\r\t]/g, '')\<close>\<close>

definition removeLineBreaks :: "string \<Rightarrow> string" where
  "removeLineBreaks str = filter (\<lambda>c. c \<notin> {CHR 0x0A, CHR 0x0D, CHR 0x09}) str"

text \<open>
  \<open>.replace(/\s{2,}/g, ' ')\<close>: scanning from the left, a whitespace character followed by
  another one starts a match, which extends over the whole run; any other character is kept.
\<close>

function collapseSpaces :: "string \<Rightarrow> string" where
  "collapseSpaces [] = []"
| "collapseSpaces (c # cs) =
     (if is_space c \<and> starts_with is_space cs
      then CHR '' '' # collapseSpaces (dropWhile is_space cs)
      else c # collapseSpaces cs)"
  by pat_completeness auto
termination
  by (relation "measure length") (auto simp: length_dropWhile_le less_Suc_eq_le)

text \<open>
  \<open>.replace(/>\s+</g, '><')\<close>: a match is a \<open>>\<close>, the whole non-empty whitespace run after
  it, and a \<open><\<close> right after that run; scanning resumes behind the \<open><\<close>.
\<close>

function closeTagGaps :: "string \<Rightarrow> string" where
  "closeTagGaps [] = []"
| "closeTagGaps (c # cs) =
     (if c = CHR ''>'' \<and> starts_with is_space cs
         \<and> starts_with (\<lambda>d. d = CHR ''<'') (dropWhile is_space cs)
      then ''><'' @ closeTagGaps (tl (dropWhile is_space cs))
      else c # closeTagGaps cs)"
  by pat_completeness auto
termination
  by (relation "measure length")
     (auto simp: less_Suc_eq_le intro: order_trans[OF diff_le_self length_dropWhile_le])

text \<open>\<open>.trim()\<close>\<close>

definition trim :: "string \<Rightarrow> string" where
  "trim str = rev (dropWhile is_space (rev (dropWhile is_space str)))"

definition normalize :: "string \<Rightarrow> string" where
  "normalize str = trim (closeTagGaps (collapseSpaces (removeLineBreaks str)))"

definition generateLotusParamXML :: "AddVesselState \<Rightarrow> string" where
  "generateLotusParamXML st =
     normalize (''<lotus_param>'' @ renderInterface st @ physicsEngineInterface st
                @ waypointFollowerInterface st @ ''</lotus_param>'')"


section \<open>The telemetry client\<close>

text \<open>
  A parsed JSON value. An object is the list of its own properties, whose keys are
  pairwise different after parsing.
\<close>

datatype json =
  JNull | JBool bool | JNumber jsnumber | JString string
| JArray "json list" | JObject "(string \<times> json) list"

datatype exn = TypeError | SyntaxError

text \<open>Truthiness of the result of a property read; \<open>None\<close> is \<open>undefined\<close>.\<close>

fun truthy :: "json option \<Rightarrow> bool" where
  "truthy None = False"
| "truthy (Some JNull) = False"
| "truthy (Some (JBool b)) = b"
| "truthy (Some (JNumber x)) = (x \<noteq> NaN \<and> x \<noteq> Zero)"
| "truthy (Some (JString s)) = (s \<noteq> [])"
| "truthy (Some (JArray xs)) = True"
| "truthy (Some (JObject kvs)) = True"

text \<open>
  \<open>item.key\<close> for a key that no built-in prototype defines (\<open>vessel_name\<close>, \<open>pose\<close>):
  reading a property of \<open>null\<close> raises a TypeError, an object yields its own property or
  \<open>undefined\<close>, every other value yields \<open>undefined\<close>.
\<close>

fun getField :: "json \<Rightarrow> string \<Rightarrow> exn + json option" where
  "getField JNull key = Inl TypeError"
| "getField (JObject kvs) key = Inr (map_of kvs key)"
| "getField v key = Inr None"

text \<open>\<open>item => item.vessel_name && item.pose\<close>, as a condition.\<close>

definition itemCheck :: "json \<Rightarrow> exn + bool" where
  "itemCheck item =
     (case getField item ''vessel_name'' of
        Inl e \<Rightarrow> Inl e
      | Inr name \<Rightarrow>
          if truthy name then
            (case getField item ''pose'' of Inl e \<Rightarrow> Inl e | Inr p \<Rightarrow> Inr (truthy p))
          else Inr False)"

text \<open>\<open>data.every(...)\<close>: stops at the first element that fails or raises.\<close>

fun every :: "('a \<Rightarrow> exn + bool) \<Rightarrow> 'a list \<Rightarrow> exn + bool" where
  "every f [] = Inr True"
| "every f (x # xs) =
     (case f x of Inl e \<Rightarrow> Inl e | Inr ok \<Rightarrow> if ok then every f xs else Inr False)"

datatype ReadyState = CONNECTING | OPEN | CLOSING | CLOSED

record WebSocket =
  url :: string
  readyState :: ReadyState

datatype level = LogMsg | WarnMsg | ErrorMsg

text \<open>
  A \<open>WebSocketClient\<close> object together with what it acts on: \<open>ws\<close> is the private field
  (an index into \<open>sockets\<close>, the WebSocket objects constructed so far), \<open>console\<close> the
  console output, \<open>callbackCalls\<close> the arguments the vessel-data callback was invoked
  with, \<open>sentMessages\<close> the values whose JSON text was sent, \<open>storedIp\<close> and
  \<open>storedInstance\<close> the persisted settings.
\<close>

record Client =
  ws :: "nat option"
  sockets :: "WebSocket list"
  console :: "(level \<times> string) list"
  callbackCalls :: "json list list"
  sentMessages :: "json list"
  storedIp :: "string option"
  storedInstance :: "string option"

definition consoleWrite :: "level \<Rightarrow> string \<Rightarrow> Client \<Rightarrow> Client" where
  "consoleWrite l msg c = c\<lparr>console := console c @ [(l, msg)]\<rparr>"

text \<open>\<open>getAddress().ip\<close> and \<open>getInstance()\<close>: a missing or empty setting gives the default.\<close>

definition getAddressIp :: "Client \<Rightarrow> string" where
  "getAddressIp c = (case storedIp c of None \<Rightarrow> ''localhost'' | Some ip \<Rightarrow> if ip = [] then ''localhost'' else ip)"

definition getInstance :: "Client \<Rightarrow> string" where
  "getInstance c = (case storedInstance c of None \<Rightarrow> [] | Some i \<Rightarrow> i)"

text \<open>The constructor: no socket yet.\<close>

definition newClient :: "string option \<Rightarrow> string option \<Rightarrow> Client" where
  "newClient ip inst =
     \<lparr>ws = None, sockets = [], console = [], callbackCalls = [], sentMessages = [],
      storedIp = ip, storedInstance = inst\<rparr>"

text \<open>
  \<open>connect()\<close>. The WebSocket constructor raises a SyntaxError for a URL it does not
  accept; \<open>accepts\<close> says which URLs it accepts. The result is the exception raised, if
  any, and the state afterwards.
\<close>

definition connect :: "(string \<Rightarrow> bool) \<Rightarrow> Client \<Rightarrow> exn option \<times> Client" where
  "connect accepts c =
     (let c1 = consoleWrite LogMsg ''WebSocket connecting.'' c in
      case ws c1 of
        Some i \<Rightarrow> (None, consoleWrite LogMsg ''WebSocket is already connected.'' c1)
      | None \<Rightarrow>
          (let u = ''ws://'' @ getAddressIp c1 @ '':5000'' in
           if accepts u then
             (None, c1\<lparr>sockets := sockets c1 @ [\<lparr>url = u, readyState = CONNECTING\<rparr>],
                       ws := Some (length (sockets c1))\<rparr>)
           else (Some SyntaxError, c1)))"

text \<open>\<open>close()\<close> of a socket: a socket that is connecting or open starts closing.\<close>

definition closeSocket :: "WebSocket \<Rightarrow> WebSocket" where
  "closeSocket s =
     (if readyState s = CONNECTING \<or> readyState s = OPEN then s\<lparr>readyState := CLOSING\<rparr> else s)"

definition disconnect :: "Client \<Rightarrow> Client" where
  "disconnect c =
     (case ws c of
        Some i \<Rightarrow>
          consoleWrite LogMsg ''WebSocket connection closed.''
            (c\<lparr>sockets := (sockets c)[i := closeSocket (sockets c ! i)]\<rparr>)
      | None \<Rightarrow> c)"

definition sendClientName :: "Client \<Rightarrow> Client" where
  "sendClientName c =
     (case ws c of
        Some i \<Rightarrow>
          if i < length (sockets c) \<and> readyState (sockets c ! i) = OPEN then
            (let instance = getInstance c in
             consoleWrite LogMsg (''Sent client name: '' @ instance)
               (c\<lparr>sentMessages := sentMessages c @ [JObject [(''instance'', JString instance)]]\<rparr>))
          else consoleWrite ErrorMsg ''WebSocket connection is not open.'' c
      | None \<Rightarrow> consoleWrite ErrorMsg ''WebSocket connection is not open.'' c)"

text \<open>
  \<open>handleMessage(event)\<close>. The argument is the outcome of \<open>JSON.parse(event.data)\<close>:
  \<open>None\<close> when it raises, the parsed value otherwise.
\<close>

definition handleMessage :: "Client \<Rightarrow> json option \<Rightarrow> Client" where
  "handleMessage c parsed =
     (case parsed of
        None \<Rightarrow> consoleWrite ErrorMsg ''Error parsing incoming data:'' c
      | Some data \<Rightarrow>
          (case data of
             JArray items \<Rightarrow>
               (case every itemCheck items of
                  Inl e \<Rightarrow> consoleWrite ErrorMsg ''Error parsing incoming data:'' c
                | Inr ok \<Rightarrow>
                    if ok then c\<lparr>callbackCalls := callbackCalls c @ [items]\<rparr>
                    else consoleWrite WarnMsg ''Received unexpected data format:'' c)
           | _ \<Rightarrow> consoleWrite WarnMsg ''Received unexpected data format:'' c))"

text \<open>The handlers that \<open>connect\<close> installs on the socket it creates.\<close>

definition onopen :: "Client \<Rightarrow> Client" where
  "onopen c =
     (case ws c of
        Some i \<Rightarrow>
          sendClientName
            (consoleWrite LogMsg ''Connected to WebSocket server''
              (c\<lparr>sockets := (sockets c)[i := (sockets c ! i)\<lparr>readyState := OPEN\<rparr>]\<rparr>))
      | None \<Rightarrow> c)"

definition onerror :: "Client \<Rightarrow> Client" where
  "onerror c = (case ws c of Some i \<Rightarrow> consoleWrite ErrorMsg ''WebSocket error:'' c | None \<Rightarrow> c)"

definition onclose :: "bool \<Rightarrow> Client \<Rightarrow> Client" where
  "onclose wasClean c =
     (case ws c of
        Some i \<Rightarrow>
          (if wasClean then consoleWrite LogMsg ''Closed cleanly''
           else consoleWrite ErrorMsg ''Connection died'')
            (c\<lparr>sockets := (sockets c)[i := (sockets c ! i)\<lparr>readyState := CLOSED\<rparr>]\<rparr>)
      | None \<Rightarrow> c)"

definition onmessage :: "json option \<Rightarrow> Client \<Rightarrow> Client" where
  "onmessage parsed c = (case ws c of Some i \<Rightarrow> handleMessage c parsed | None \<Rightarrow> c)"

text \<open>What can happen to a client: calls of its public methods and events of its socket.\<close>

datatype event =
  Connect | Disconnect | SendClientName
| SocketOpen | SocketMessage "json option" | SocketError | SocketClose bool

fun step :: "(string \<Rightarrow> bool) \<Rightarrow> Client \<Rightarrow> event \<Rightarrow> Client" where
  "step accepts c Connect = snd (connect accepts c)"
| "step accepts c Disconnect = disconnect c"
| "step accepts c SendClientName = sendClientName c"
| "step accepts c SocketOpen = onopen c"
| "step accepts c (SocketMessage parsed) = onmessage parsed c"
| "step accepts c SocketError = onerror c"
| "step accepts c (SocketClose wasClean) = onclose wasClean c"

definition run :: "(string \<Rightarrow> bool) \<Rightarrow> Client \<Rightarrow> event list \<Rightarrow> Client" where
  "run accepts c evs = foldl (step accepts) c evs"

text \<open>
  The validation as the specification words it: the message parses to an array in which
  every element has a truthy \<open>vessel_name\<close> and a truthy \<open>pose\<close>.
\<close>

definition hasTruthy :: "string \<Rightarrow> json \<Rightarrow> bool" where
  "hasTruthy key item = (case item of JObject kvs \<Rightarrow> truthy (map_of kvs key) | _ \<Rightarrow> False)"

definition validBatch :: "json option \<Rightarrow> bool" where
  "validBatch parsed =
     (case parsed of
        Some (JArray items) \<Rightarrow>
          list_all (\<lambda>item. hasTruthy ''vessel_name'' item \<and> hasTruthy ''pose'' item) items
      | _ \<Rightarrow> False)"


section \<open>The vessel marker\<close>

text \<open>
  \<open>getIconSize\<close> computes with Numbers, which are IEEE 754 double-precision values. For
  the arithmetic a Number is given in binary: not-a-number, an infinity (\<open>True\<close> for the
  negative one), or the finite value \<open>m * 2^e\<close> of two integers \<open>m\<close> and \<open>e\<close>. A
  finite value is a double when it can be written with \<open>|m| < 2^53\<close> and
  \<open>-1074 \<le> e \<le> 971\<close>. The sign of a zero is not represented; it does not affect the
  value of a sum or a product.
\<close>

datatype float64 = NaN64 | Inf64 bool | Fin64 int int

text \<open>The number of binary digits of a natural number.\<close>

fun bitLength :: "nat \<Rightarrow> nat" where
  "bitLength n = (if n = 0 then 0 else Suc (bitLength (n div 2)))"

declare bitLength.simps [simp del]

text \<open>
  \<open>a / 2^s\<close> rounded to the nearest integer, a tie to the even one.
\<close>

definition roundShift :: "nat \<Rightarrow> nat \<Rightarrow> nat" where
  "roundShift a s =
     (let q = a div 2 ^ s; r = a mod 2 ^ s; half = 2 ^ (s - 1)
      in if half < r \<or> (r = half \<and> odd q) then q + 1 else q)"

text \<open>
  The double nearest to \<open>m * 2^e\<close>, a tie to the one with the even significand. The
  result is a multiple of \<open>2^q\<close>, where \<open>q\<close> leaves 53 binary digits to the significand
  and is at least -1074, the exponent of the subnormal numbers. When \<open>q \<le> e\<close> the value
  is such a multiple already and is kept as it is given; otherwise \<open>m\<close> is rounded to a
  multiple of \<open>2^(q - e)\<close>. From \<open>2^1024\<close> on the result is an infinity.
\<close>

definition round64 :: "int \<Rightarrow> int \<Rightarrow> float64" where
  "round64 m e =
     (let a = nat \<bar>m\<bar>;
          q = max (e + int (bitLength a) - 53) (- 1074)
      in if q \<le> e then
           (if 1024 < e + int (bitLength a) then Inf64 (m < 0) else Fin64 m e)
         else
           (let a' = roundShift a (nat (q - e))
            in if 1024 < q + int (bitLength a') then Inf64 (m < 0)
               else Fin64 (sgn m * int a') q))"





fun isDouble :: "float64 \<Rightarrow> bool" where
  "isDouble (Fin64 m e) \<longleftrightarrow> \<bar>m\<bar> < 2 ^ 53 \<and> - 1074 \<le> e \<and> e \<le> 971"
| "isDouble x \<longleftrightarrow> True"


section \<open>Auxiliary definitions\<close>

text \<open>
  Where the second and the third pass find a match: a whitespace character followed by
  another, and a \<open>>\<close> followed by whitespace and then a \<open><\<close>.
\<close>

fun hasSpaceRun :: "string \<Rightarrow> bool" where
  "hasSpaceRun [] = False"
| "hasSpaceRun (c # cs) = ((is_space c \<and> starts_with is_space cs) \<or> hasSpaceRun cs)"

fun hasTagGap :: "string \<Rightarrow> bool" where
  "hasTagGap [] = False"
| "hasTagGap (c # cs) =
     ((c = CHR ''>'' \<and> starts_with is_space cs
         \<and> starts_with (\<lambda>d. d = CHR ''<'') (dropWhile is_space cs))
      \<or> hasTagGap cs)"

text \<open>
  The first three passes together, and what they make of the text between two tags: the
  text without line breaks and tabs and with its whitespace runs collapsed, or nothing when
  that is whitespace only.
\<close>

definition squeeze :: "string \<Rightarrow> string" where
  "squeeze str = closeTagGaps (collapseSpaces (removeLineBreaks str))"

definition normText :: "string \<Rightarrow> string" where
  "normText t =
     (let u = collapseSpaces (removeLineBreaks t) in if list_all is_space u then [] else u)"

text \<open>
  A document of tags and text is cut into tokens: a token \<open>(t, n)\<close> is the text \<open>t\<close> behind
  the preceding tag and the name \<open>n\<close> of the next tag. Its piece of the document runs from
  the \<open>>\<close> that closes the preceding tag to the end of the name \<open>n\<close>. A text holds no
  \<open><\<close> or \<open>>\<close>, a name in addition no whitespace.
\<close>

definition piece :: "string \<times> string \<Rightarrow> string" where
  "piece p = (case p of (t, n) \<Rightarrow> CHR ''>'' # t @ CHR ''<'' # n)"

definition normToken :: "string \<times> string \<Rightarrow> string \<times> string" where
  "normToken p = (case p of (t, n) \<Rightarrow> (normText t, n))"

definition textOk :: "string \<Rightarrow> bool" where
  "textOk t = list_all (\<lambda>c. c \<noteq> CHR ''<'' \<and> c \<noteq> CHR ''>'') t"

definition nameOk :: "string \<Rightarrow> bool" where
  "nameOk n = list_all (\<lambda>c. \<not> is_space c \<and> c \<noteq> CHR ''<'' \<and> c \<noteq> CHR ''>'') n"

definition tokenOk :: "string \<times> string \<Rightarrow> bool" where
  "tokenOk p = (case p of (t, n) \<Rightarrow> textOk t \<and> nameOk n)"

text \<open>
  The tokens of the assembled document, section by section; the whitespace is that of
  the template literals. \<open>lead\<close> is whitespace that precedes a list of elements.
\<close>

definition renderTokens :: "AddVesselState \<Rightarrow> (string \<times> string) list" where
  "renderTokens st =
     (if renderEnabled st then
        [(''\<newline>      '', ''render_interface''),
         (''\<newline>        '', ''publish_render''),
         (booleanToString (publishRender st), ''/publish_render''),
         (''\<newline>        '', ''renderer_type_name''),
         (escapeXml (rendererType st), ''/renderer_type_name''),
         (''\<newline>      '', ''/render_interface'')]
      else [])"

fun thrusterTokens :: "string \<Rightarrow> nat \<Rightarrow> string list \<Rightarrow> (string \<times> string) list" where
  "thrusterTokens lead n [] = [(lead @ ''\<newline>          '', ''/thrusters'')]"
| "thrusterTokens lead n (t # ts) =
     [(lead @ ''        '', ''thrusters'' @ digits (n + 1)),
      (escapeXml t, ''/thrusters'' @ digits (n + 1))]
     @ thrusterTokens (if ts = [] then [] else ''\<newline>'') (Suc n) ts"

definition partTokens :: "AddVesselState \<Rightarrow> PhysicsMode \<Rightarrow> (string \<times> string) list" where
  "partTokens st m =
     [(''\<newline>        '', modeKey m),
      (''\<newline>          '', ''ConnectionType''),
      (escapeXml (connectionType (physicsConfig st m)), ''/ConnectionType''),
      (''                        \<newline>          '', ''uri''),
      (escapeXml (uri (physicsConfig st m)), ''/uri''),
      (''\<newline>          '', ''thrusters'')]
     @ thrusterTokens ''\<newline>    '' 0 (thrusters (physicsConfig st m))
     @ [(''\<newline>        '', CHR ''/'' # modeKey m)]"

definition physicsTokens :: "AddVesselState \<Rightarrow> (string \<times> string) list" where
  "physicsTokens st =
     (if physicsEnabled st then
        [(''\<newline>      '', ''physics_engine_interface'')]
        @ concat (map (partTokens st) (filter (physicsModes st) physicsModeKeys))
        @ [(''\<newline>        '', ''init_state''),
           (escapeXml (initState st), ''/init_state''),
           (''\<newline>      '', ''/physics_engine_interface'')]
      else [])"

definition limitTokens :: "WaypointFollower \<Rightarrow> (string \<times> string) list" where
  "limitTokens w =
     [(''\<newline>          \<newline>      '', ''loop''),
      (booleanToString (loop w), ''/loop''),
      (''\<newline>      '', ''linear_acceleration_limit''),
      (numberToString (linearAccLimit w), ''/linear_acceleration_limit''),
      (''\<newline>      '', ''angular_acceleration_limit''),
      (numberToString (angularAccLimit w), ''/angular_acceleration_limit''),
      (''\<newline>      '', ''angular_velocity_limit''),
      (numberToString (angularVelLimit w), ''/angular_velocity_limit'')]"

fun waypointTokens :: "string \<Rightarrow> (jsnumber \<times> jsnumber) list \<Rightarrow> (string \<times> string) list" where
  "waypointTokens lead [] = [(lead @ ''\<newline>          '', ''/waypoints'')]"
| "waypointTokens lead (wp # wps) =
     [(lead, ''waypoint''),
      (numberToString (fst wp) @ '' '' @ numberToString (snd wp), ''/waypoint'')]
     @ waypointTokens [] wps"

definition followerTokens :: "WaypointFollower \<Rightarrow> (string \<times> string) list" where
  "followerTokens w =
     (if mode w = ''waypoints'' \<and> waypoints w \<noteq> [] then
        [(''\<newline>        \<newline>        '', ''follower'')] @ limitTokens w
        @ [(''\<newline>    \<newline>          '', ''waypoints'')]
        @ waypointTokens ''\<newline>            '' (waypoints w)
        @ [(''\<newline>        '', ''/follower''), (''\<newline>      '', ''/waypoint_follower'')]
      else if mode w = ''line'' then
        [(''\<newline>        \<newline>        '', ''follower'')] @ limitTokens w
        @ [(''\<newline>    \<newline>          '', ''line''),
           (''\<newline>            '', ''direction''),
           (numberToString (line_direction w), ''/direction''),
           (''\<newline>            '', ''length''),
           (numberToString (line_length w), ''/length''),
           (''\<newline>          '', ''/line''),
           (''\<newline>        '', ''/follower''), (''\<newline>      '', ''/waypoint_follower'')]
      else if mode w = ''circle'' then
        [(''\<newline>        \<newline>        '', ''follower'')] @ limitTokens w
        @ [(''\<newline>    \<newline>          '', ''circle''),
           (''\<newline>            '', ''radius''),
           (numberToString (circle_radius w), ''/radius''),
           (''\<newline>          '', ''/circle''),
           (''\<newline>        '', ''/follower''), (''\<newline>      '', ''/waypoint_follower'')]
      else [(''\<newline>        \<newline>      '', ''/waypoint_follower'')])"

definition waypointFollowerTokens :: "AddVesselState \<Rightarrow> (string \<times> string) list" where
  "waypointFollowerTokens st =
     (if enabled (waypointFollower st) then
        (''\<newline>      '', ''waypoint_follower'') # followerTokens (waypointFollower st)
      else [])"

definition rawTokens :: "AddVesselState \<Rightarrow> (string \<times> string) list" where
  "rawTokens st =
     renderTokens st @ physicsTokens st @ waypointFollowerTokens st @ [([], ''/lotus_param'')]"

text \<open>The tokens of the serialized document.\<close>

definition outTokens :: "AddVesselState \<Rightarrow> (string \<times> string) list" where
  "outTokens st = map normToken (rawTokens st)"

text \<open>The characters that printed numbers are made of.\<close>

definition numberChars :: "char set" where
  "numberChars = set ''0123456789.e+-NaInfinity''"

text \<open>How often a string occurs in another, counted by starting position.\<close>

fun occurrences :: "string \<Rightarrow> string \<Rightarrow> nat" where
  "occurrences pat [] = 0"
| "occurrences pat (c # cs) =
     (if take (length pat) (c # cs) = pat then 1 else 0) + occurrences pat cs"

text \<open>
  One thruster element of the serialized document: the 1-based position in the tag name,
  the escaped and whitespace-normalized name as content.
\<close>

definition thrusterElement :: "nat \<times> string \<Rightarrow> string" where
  "thrusterElement p =
     (case p of (idx, thruster) \<Rightarrow>
        ''<thrusters'' @ digits (idx + 1) @ ''>'' @ normText (escapeXml thruster)
        @ ''</thrusters'' @ digits (idx + 1) @ ''>'')"

text \<open>The five reserved characters, and what escaping makes of one character.\<close>

definition reserved :: "char \<Rightarrow> bool" where
  "reserved c \<longleftrightarrow> c \<in> {CHR ''&'', CHR ''<'', CHR ''>'', CHR 0x22, CHR 0x27}"

definition escapeChar :: "char \<Rightarrow> string" where
  "escapeChar c =
     (if c = CHR ''&'' then ''&amp;''
      else if c = CHR ''<'' then ''&lt;''
      else if c = CHR ''>'' then ''&gt;''
      else if c = CHR 0x22 then ''&quot;''
      else if c = CHR 0x27 then ''&apos;''
      else [c])"

text \<open>
  What it means that the reserved characters occur in escaped form only. After a \<open>&\<close>
  comes the rest of one of the five entities; a text between tags holds no \<open><\<close>, \<open>>\<close>,
  double or single quote and every \<open>&\<close> in it starts an entity; a document is a sequence of
  tags, whose names are made of letters, digits, \<open>_\<close> and \<open>/\<close>, with such text between them.
\<close>

definition entities :: "string list" where
  "entities = [''amp;'', ''lt;'', ''gt;'', ''quot;'', ''apos;'']"

definition startsEntity :: "string \<Rightarrow> bool" where
  "startsEntity cs = list_ex (\<lambda>e. take (length e) cs = e) entities"

fun escapedText :: "string \<Rightarrow> bool" where
  "escapedText [] = True"
| "escapedText (c # cs) =
     (if c = CHR ''&'' then startsEntity cs \<and> escapedText cs
      else c \<noteq> CHR ''<'' \<and> c \<noteq> CHR ''>'' \<and> c \<noteq> CHR 0x22 \<and> c \<noteq> CHR 0x27 \<and> escapedText cs)"

definition tagChar :: "char \<Rightarrow> bool" where
  "tagChar c \<longleftrightarrow>
     c \<in> set ''abcdefghijklmnopqrstuvwxyzABCDEFGHIJKLMNOPQRSTUVWXYZ0123456789_/''"

fun scanDocument :: "bool \<Rightarrow> string \<Rightarrow> bool" where
  "scanDocument inTag [] = (\<not> inTag)"
| "scanDocument inTag (c # cs) =
     (if inTag then
        (if c = CHR ''>'' then scanDocument False cs else tagChar c \<and> scanDocument True cs)
      else if c = CHR ''<'' then scanDocument True cs
      else if c = CHR ''&'' then startsEntity cs \<and> scanDocument False cs
      else c \<noteq> CHR ''>'' \<and> c \<noteq> CHR 0x22 \<and> c \<noteq> CHR 0x27 \<and> scanDocument False cs)"

definition wellEscaped :: "string \<Rightarrow> bool" where
  "wellEscaped doc = scanDocument False doc"

definition tokenEscaped :: "string \<times> string \<Rightarrow> bool" where
  "tokenEscaped p = (case p of (t, n) \<Rightarrow> escapedText t \<and> list_all tagChar n)"

text \<open>
  The serialized document, element by element. A string field is written as
  \<open>fieldText\<close> of it: each character of the whitespace-normalized field, a reserved
  character as its entity. Numbers and booleans are written as printed.
\<close>

definition fieldText :: "string \<Rightarrow> string" where
  "fieldText s = concat (map escapeChar (normText s))"

definition renderElement :: "AddVesselState \<Rightarrow> string" where
  "renderElement st =
     (if renderEnabled st then
        ''<render_interface><publish_render>'' @ booleanToString (publishRender st)
        @ ''</publish_render><renderer_type_name>'' @ fieldText (rendererType st)
        @ ''</renderer_type_name></render_interface>''
      else [])"

definition thrusterField :: "nat \<times> string \<Rightarrow> string" where
  "thrusterField p =
     (case p of (idx, thruster) \<Rightarrow>
        ''<thrusters'' @ digits (idx + 1) @ ''>'' @ fieldText thruster
        @ ''</thrusters'' @ digits (idx + 1) @ ''>'')"

definition modeElement :: "AddVesselState \<Rightarrow> PhysicsMode \<Rightarrow> string" where
  "modeElement st m =
     (let config = physicsConfig st m in
        ''<'' @ modeKey m @ ''><ConnectionType>'' @ fieldText (connectionType config)
        @ ''</ConnectionType><uri>'' @ fieldText (uri config)
        @ ''</uri><thrusters>'' @ concat (map thrusterField (enumerate 0 (thrusters config)))
        @ ''</thrusters></'' @ modeKey m @ ''>'')"

definition physicsElement :: "AddVesselState \<Rightarrow> string" where
  "physicsElement st =
     (if physicsEnabled st then
        ''<physics_engine_interface>''
        @ concat (map (modeElement st) (filter (physicsModes st) physicsModeKeys))
        @ ''<init_state>'' @ fieldText (initState st)
        @ ''</init_state></physics_engine_interface>''
      else [])"

definition limitElements :: "WaypointFollower \<Rightarrow> string" where
  "limitElements w =
     ''<loop>'' @ booleanToString (loop w)
     @ ''</loop><linear_acceleration_limit>'' @ numberToString (linearAccLimit w)
     @ ''</linear_acceleration_limit><angular_acceleration_limit>''
     @ numberToString (angularAccLimit w)
     @ ''</angular_acceleration_limit><angular_velocity_limit>''
     @ numberToString (angularVelLimit w) @ ''</angular_velocity_limit>''"

definition followerElement :: "WaypointFollower \<Rightarrow> string" where
  "followerElement w =
     (if mode w = ''waypoints'' \<and> waypoints w \<noteq> [] then
        ''<follower>'' @ limitElements w @ ''<waypoints>''
        @ concat (map waypointXml (waypoints w)) @ ''</waypoints></follower>''
      else if mode w = ''line'' then
        ''<follower>'' @ limitElements w @ ''<line><direction>''
        @ numberToString (line_direction w) @ ''</direction><length>''
        @ numberToString (line_length w) @ ''</length></line></follower>''
      else if mode w = ''circle'' then
        ''<follower>'' @ limitElements w @ ''<circle><radius>''
        @ numberToString (circle_radius w) @ ''</radius></circle></follower>''
      else [])"

definition waypointFollowerElement :: "AddVesselState \<Rightarrow> string" where
  "waypointFollowerElement st =
     (if enabled (waypointFollower st) then
        ''<waypoint_follower>'' @ followerElement (waypointFollower st)
        @ ''</waypoint_follower>''
      else [])"

definition parameterDocument :: "AddVesselState \<Rightarrow> string" where
  "parameterDocument st =
     ''<lotus_param>'' @ renderElement st @ physicsElement st
     @ waypointFollowerElement st @ ''</lotus_param>''"

text \<open>The invariant of a client and the sockets it has created.\<close>

definition atMostOneSocket :: "Client \<Rightarrow> bool" where
  "atMostOneSocket c \<longleftrightarrow> (ws c = None \<and> sockets c = []) \<or> (ws c = Some 0 \<and> length (sockets c) = 1)"

text \<open>
  Concrete inputs: a dialog state with every block disabled and all fields filled in, a
  connected client, a valid and an invalid telemetry message, and variants of the dialog
  state with single blocks enabled.
\<close>

definition exampleFollower :: WaypointFollower where
  "exampleFollower =
     \<lparr>enabled = False, loop = True, linearAccLimit = Finite False 5 0,
      angularAccLimit = Finite False 5 (- 2), angularVelLimit = Finite False 1 (- 1),
      mode = ''line'', waypoints = [(Finite False 12 1, Zero)],
      line_direction = Finite False 9 2, line_length = Finite False 25 3,
      circle_radius = Finite False 3 1\<rparr>"

definition exampleState :: AddVesselState where
  "exampleState =
     \<lparr>physicsEnabled = False, renderEnabled = False, rendererType = ''a<b'',
      publishRender = True, physicsModes = (\<lambda>m. m = Surface),
      physicsConfig = (\<lambda>m. \<lparr>connectionType = ''TCPIP'', uri = ''tcp://h:1'',
                               thrusters = [''A'', ''B'', ''C'']\<rparr>),
      initState = ''Surface'', waypointFollower = exampleFollower\<rparr>"

definition exampleClient :: Client where
  "exampleClient =
     \<lparr>ws = Some 0, sockets = [\<lparr>url = ''ws://localhost:5000'', readyState = OPEN\<rparr>],
      console = [], callbackCalls = [[]], sentMessages = [],
      storedIp = None, storedInstance = Some ''lotusim''\<rparr>"

definition goodMessage :: "json option" where
  "goodMessage =
     Some (JArray [JObject [(''vessel_name'', JString ''v1''),
                            (''pose'', JObject [(''heading'', JNumber (Finite False 9 2))])]])"

definition badMessage :: "json option" where
  "badMessage =
     Some (JArray [JObject [(''vessel_name'', JString ''v1''), (''pose'', JObject [])],
                   JObject [(''pose'', JObject [])]])"

definition emptyWaypointsState :: AddVesselState where
  "emptyWaypointsState =
     exampleState\<lparr>waypointFollower :=
       exampleFollower\<lparr>enabled := True, mode := ''waypoints'', waypoints := []\<rparr>\<rparr>"

definition noModeState :: AddVesselState where
  "noModeState =
     exampleState\<lparr>waypointFollower := exampleFollower\<lparr>enabled := True, mode := []\<rparr>\<rparr>"

definition lineModeState :: AddVesselState where
  "lineModeState = exampleState\<lparr>waypointFollower := exampleFollower\<lparr>enabled := True\<rparr>\<rparr>"

definition physicsState :: AddVesselState where
  "physicsState = exampleState\<lparr>physicsEnabled := True\<rparr>"

definition doubleSpaceState :: AddVesselState where
  "doubleSpaceState =
     exampleState\<lparr>physicsEnabled := True,
       physicsConfig := (\<lambda>m. \<lparr>connectionType = ''TCPIP'', uri = ''tcp://h:1'',
                                thrusters = [''A  B'']\<rparr>)\<rparr>"

definition escapingState :: AddVesselState where
  "escapingState =
     \<lparr>physicsEnabled = True, renderEnabled = True, rendererType = ''a<b>&c'',
      publishRender = True, physicsModes = (\<lambda>m. m = Aerial),
      physicsConfig = (\<lambda>m. \<lparr>connectionType = ''R&D'', uri = [CHR 0x22, CHR ''u'', CHR 0x27],
                               thrusters = [''t&1'']\<rparr>),
      initState = ''A&B'', waypointFollower = exampleFollower\<lparr>enabled := True\<rparr>\<rparr>"


section \<open>The serializer: results\<close>

lemma is_space_simps [simp]:
  "is_space CHR '' ''" "is_space CHR ''\<newline>''" "\<not> is_space CHR ''<''" "\<not> is_space CHR ''>''"
  by (simp_all add: is_space_def)

text \<open>
  C1. When the render, physics and waypoint-follower blocks are all disabled, the
  serializer returns exactly \<open><lotus_param></lotus_param>\<close>, whatever the fields of the
  disabled blocks hold.
\<close>

theorem all_blocks_disabled_minimal_document:
  assumes "\<not> renderEnabled st" and "\<not> physicsEnabled st"
    and "\<not> enabled (waypointFollower st)"
  shows "generateLotusParamXML st = ''<lotus_param></lotus_param>''"
  using assms
  by (simp add: generateLotusParamXML_def renderInterface_def physicsEngineInterface_def
      waypointFollowerInterface_def normalize_def removeLineBreaks_def trim_def is_space_def)

theorem all_blocks_disabled_minimal_document_witness:
  "\<not> renderEnabled exampleState \<and> \<not> physicsEnabled exampleState
   \<and> \<not> enabled (waypointFollower exampleState)
   \<and> generateLotusParamXML exampleState = ''<lotus_param></lotus_param>''"
  using all_blocks_disabled_minimal_document [of exampleState]
  by (simp add: exampleState_def exampleFollower_def)


section \<open>Whitespace normalization: results\<close>

subsection \<open>Heads of lists\<close>

lemma starts_with_append:
  "starts_with P xs \<Longrightarrow> starts_with P (xs @ ys)"
  by (cases xs) simp_all

lemma not_starts_with_dropWhile [simp]: "\<not> starts_with P (dropWhile P xs)"
  by (induction xs) simp_all

lemma dropWhile_not_starts: "\<not> starts_with P xs \<Longrightarrow> dropWhile P xs = xs"
  by (cases xs) simp_all

lemma starts_with_collapseSpaces [simp]:
  "starts_with is_space (collapseSpaces xs) = starts_with is_space xs"
  by (cases xs) simp_all

lemma starts_with_closeTagGaps [simp]:
  "starts_with Q (closeTagGaps xs) = starts_with Q xs"
  by (cases xs) simp_all

lemma dropWhile_closeTagGaps:
  "dropWhile is_space (closeTagGaps xs) = closeTagGaps (dropWhile is_space xs)"
proof (induction xs)
  case Nil
  show ?case by simp
next
  case (Cons c cs)
  show ?case
  proof (cases "is_space c")
    case True
    then have "c \<noteq> CHR ''>''" by auto
    with True Cons show ?thesis by simp
  next
    case False
    then have "\<not> starts_with is_space (closeTagGaps (c # cs))"
      by (simp del: closeTagGaps.simps)
    then have "dropWhile is_space (closeTagGaps (c # cs)) = closeTagGaps (c # cs)"
      by (rule dropWhile_not_starts)
    with False show ?thesis by simp
  qed
qed

subsection \<open>Characters of the results\<close>

lemma set_collapseSpaces: "set (collapseSpaces xs) \<subseteq> insert CHR '' '' (set xs)"
proof (induction xs rule: collapseSpaces.induct)
  case 1
  show ?case by simp
next
  case (2 c cs)
  have "set (dropWhile is_space cs) \<subseteq> set cs"
    by (rule set_dropWhileD [THEN subsetI])
  with 2 show ?case by auto
qed

lemma set_tl_subset: "set (tl xs) \<subseteq> set xs"
  by (cases xs) auto

lemma set_tl_dropWhile: "set (tl (dropWhile P cs)) \<subseteq> set cs"
proof -
  have "set (tl (dropWhile P cs)) \<subseteq> set (dropWhile P cs)"
    by (rule set_tl_subset)
  also have "\<dots> \<subseteq> set cs"
    by (rule set_dropWhileD [THEN subsetI])
  finally show ?thesis .
qed

lemma starts_with_mem: "starts_with P xs \<Longrightarrow> \<exists>x\<in>set xs. P x"
  by (cases xs) auto

lemma set_closeTagGaps: "set (closeTagGaps xs) \<subseteq> set xs"
proof (induction xs rule: closeTagGaps.induct)
  case 1
  show ?case by simp
next
  case (2 c cs)
  show ?case
  proof (cases "c = CHR ''>'' \<and> starts_with is_space cs
         \<and> starts_with (\<lambda>d. d = CHR ''<'') (dropWhile is_space cs)")
    case True
    then have "CHR ''<'' \<in> set (dropWhile is_space cs)"
      using starts_with_mem [of "\<lambda>d. d = CHR ''<''" "dropWhile is_space cs"] by auto
    then have "CHR ''<'' \<in> set cs" by (rule set_dropWhileD)
    moreover have "set (closeTagGaps (tl (dropWhile is_space cs))) \<subseteq> set cs"
      using 2(1) True set_tl_dropWhile [of is_space cs] by auto
    ultimately show ?thesis using True by auto
  next
    case False
    with 2(2) show ?thesis by auto
  qed
qed

lemma trim_decomposition: "\<exists>a b. str = a @ trim str @ b"
proof -
  let ?y = "dropWhile is_space str"
  have "trim str @ rev (takeWhile is_space (rev ?y))
      = rev (takeWhile is_space (rev ?y) @ dropWhile is_space (rev ?y))"
    by (simp only: trim_def rev_append)
  also have "\<dots> = rev (rev ?y)"
    by (simp only: takeWhile_dropWhile_id)
  also have "\<dots> = ?y"
    by simp
  finally have "takeWhile is_space str @ trim str @ rev (takeWhile is_space (rev ?y)) = str"
    by simp
  then show ?thesis by metis
qed

lemma set_trim: "set (trim str) \<subseteq> set str"
proof -
  obtain a b where "str = a @ trim str @ b" using trim_decomposition by blast
  then have "set str = set a \<union> set (trim str) \<union> set b"
    by (metis set_append sup_assoc)
  then show ?thesis by auto
qed


subsection \<open>Strings without a match are left alone\<close>

lemma collapseSpaces_fixed: "\<not> hasSpaceRun xs \<Longrightarrow> collapseSpaces xs = xs"
  by (induction xs) auto

lemma closeTagGaps_fixed: "\<not> hasTagGap xs \<Longrightarrow> closeTagGaps xs = xs"
  by (induction xs) auto

lemma hasSpaceRun_append_left: "hasSpaceRun ys \<Longrightarrow> hasSpaceRun (xs @ ys)"
  by (induction xs) auto

lemma hasSpaceRun_append_right: "hasSpaceRun xs \<Longrightarrow> hasSpaceRun (xs @ ys)"
  by (induction xs) (auto intro: starts_with_append)

lemma hasTagGap_append_left: "hasTagGap ys \<Longrightarrow> hasTagGap (xs @ ys)"
  by (induction xs) auto

lemma dropWhile_append_starts:
  "starts_with Q (dropWhile P xs) \<Longrightarrow> dropWhile P (xs @ ys) = dropWhile P xs @ ys"
  by (induction xs) auto

lemma hasTagGap_append_right: "hasTagGap xs \<Longrightarrow> hasTagGap (xs @ ys)"
proof (induction xs)
  case Nil
  then show ?case by simp
next
  case (Cons c cs)
  show ?case
  proof (cases "hasTagGap cs")
    case True
    with Cons.IH show ?thesis by simp
  next
    case False
    with Cons.prems have m: "c = CHR ''>''" "starts_with is_space cs"
      "starts_with (\<lambda>d. d = CHR ''<'') (dropWhile is_space cs)"
      by auto
    from m(3) have "dropWhile is_space (cs @ ys) = dropWhile is_space cs @ ys"
      by (rule dropWhile_append_starts)
    with m show ?thesis
      by (simp add: starts_with_append)
  qed
qed

lemma hasSpaceRun_dropWhile: "hasSpaceRun (dropWhile P xs) \<Longrightarrow> hasSpaceRun xs"
  using hasSpaceRun_append_left [of "dropWhile P xs" "takeWhile P xs"] by simp

lemma hasSpaceRun_tl: "hasSpaceRun (tl xs) \<Longrightarrow> hasSpaceRun xs"
  by (cases xs) auto

lemma collapseSpaces_no_run: "\<not> hasSpaceRun (collapseSpaces xs)"
  by (induction xs rule: collapseSpaces.induct) auto

lemma closeTagGaps_keeps_no_run: "\<not> hasSpaceRun xs \<Longrightarrow> \<not> hasSpaceRun (closeTagGaps xs)"
proof (induction xs rule: closeTagGaps.induct)
  case 1
  show ?case by simp
next
  case (2 c cs)
  show ?case
  proof (cases "c = CHR ''>'' \<and> starts_with is_space cs
         \<and> starts_with (\<lambda>d. d = CHR ''<'') (dropWhile is_space cs)")
    case True
    from "2.prems" have "\<not> hasSpaceRun cs" by simp
    then have "\<not> hasSpaceRun (tl (dropWhile is_space cs))"
      using hasSpaceRun_tl hasSpaceRun_dropWhile by blast
    with "2.IH"(1) True have "\<not> hasSpaceRun (closeTagGaps (tl (dropWhile is_space cs)))"
      by simp
    with True show ?thesis by simp
  next
    case False
    from "2.prems" have "\<not> hasSpaceRun cs" and "\<not> (is_space c \<and> starts_with is_space cs)"
      by simp_all
    with "2.IH"(2) False show ?thesis by auto
  qed
qed

lemma closeTagGaps_no_gap: "\<not> hasTagGap (closeTagGaps xs)"
proof (induction xs rule: closeTagGaps.induct)
  case 1
  show ?case by simp
next
  case (2 c cs)
  show ?case
  proof (cases "c = CHR ''>'' \<and> starts_with is_space cs
         \<and> starts_with (\<lambda>d. d = CHR ''<'') (dropWhile is_space cs)")
    case True
    with "2.IH"(1) show ?thesis by simp
  next
    case False
    with "2.IH"(2) show ?thesis
      by (auto simp: dropWhile_closeTagGaps)
  qed
qed

lemma trim_keeps_no_run: "\<not> hasSpaceRun str \<Longrightarrow> \<not> hasSpaceRun (trim str)"
proof -
  obtain a b where ab: "str = a @ trim str @ b" using trim_decomposition by blast
  show "\<not> hasSpaceRun str \<Longrightarrow> \<not> hasSpaceRun (trim str)"
    using hasSpaceRun_append_left [of "trim str @ b" a]
      hasSpaceRun_append_right [of "trim str" b] ab
    by auto
qed

lemma trim_keeps_no_gap: "\<not> hasTagGap str \<Longrightarrow> \<not> hasTagGap (trim str)"
proof -
  obtain a b where ab: "str = a @ trim str @ b" using trim_decomposition by blast
  show "\<not> hasTagGap str \<Longrightarrow> \<not> hasTagGap (trim str)"
    using hasTagGap_append_left [of "trim str @ b" a]
      hasTagGap_append_right [of "trim str" b] ab
    by auto
qed

lemma trim_fixed:
  "\<not> starts_with is_space str \<Longrightarrow> \<not> starts_with is_space (rev str) \<Longrightarrow> trim str = str"
  by (simp add: trim_def dropWhile_not_starts)

lemma starts_with_prefix:
  "starts_with P xs \<Longrightarrow> xs @ zs = ys \<Longrightarrow> starts_with P ys"
  by (cases xs) auto

lemma trim_trim: "trim (trim str) = trim str"
proof (rule trim_fixed)
  have "rev (trim str) = dropWhile is_space (rev (dropWhile is_space str))"
    by (simp add: trim_def)
  then show "\<not> starts_with is_space (rev (trim str))"
    by simp
  have "trim str @ rev (takeWhile is_space (rev (dropWhile is_space str)))
      = rev (takeWhile is_space (rev (dropWhile is_space str))
             @ dropWhile is_space (rev (dropWhile is_space str)))"
    by (simp only: trim_def rev_append)
  also have "\<dots> = dropWhile is_space str"
    by (simp only: takeWhile_dropWhile_id rev_rev_ident)
  finally show "\<not> starts_with is_space (trim str)"
    using starts_with_prefix [of is_space "trim str" _ "dropWhile is_space str"]
    by auto
qed

lemma removeLineBreaks_fixed:
  "set str \<inter> {CHR 0x0A, CHR 0x0D, CHR 0x09} = {} \<Longrightarrow> removeLineBreaks str = str"
  unfolding removeLineBreaks_def by (rule filter_True) auto

lemma normalize_no_line_breaks:
  "set (normalize str) \<inter> {CHR 0x0A, CHR 0x0D, CHR 0x09} = {}"
proof -
  have "set (normalize str) \<subseteq> insert CHR '' '' (set (removeLineBreaks str))"
    unfolding normalize_def
    using set_trim set_closeTagGaps set_collapseSpaces by (meson subset_trans)
  moreover have "set (removeLineBreaks str) \<inter> {CHR 0x0A, CHR 0x0D, CHR 0x09} = {}"
    by (auto simp: removeLineBreaks_def)
  ultimately show ?thesis by auto
qed

text \<open>
  C5. The whitespace normalization is idempotent: applied to a string that is already
  the normalization of some string, it changes nothing.
\<close>

theorem normalize_idempotent: "normalize (normalize str) = normalize str"
proof -
  let ?t = "normalize str"
  have 1: "removeLineBreaks ?t = ?t"
    by (rule removeLineBreaks_fixed [OF normalize_no_line_breaks])
  have "\<not> hasSpaceRun ?t"
    unfolding normalize_def
    by (intro trim_keeps_no_run closeTagGaps_keeps_no_run collapseSpaces_no_run)
  then have 2: "collapseSpaces ?t = ?t"
    by (rule collapseSpaces_fixed)
  have "\<not> hasTagGap ?t"
    unfolding normalize_def
    by (intro trim_keeps_no_gap closeTagGaps_no_gap)
  then have 3: "closeTagGaps ?t = ?t"
    by (rule closeTagGaps_fixed)
  have "normalize ?t = trim ?t"
    by (simp add: normalize_def [of ?t] 1 2 3)
  also have "\<dots> = ?t"
    unfolding normalize_def by (rule trim_trim)
  finally show ?thesis .
qed


section \<open>The serializer in closed form\<close>

subsection \<open>The passes on a document of tags and text\<close>

lemma dropWhile_append_nonspace:
  "\<not> P c \<Longrightarrow> dropWhile P (xs @ c # ys) = dropWhile P xs @ c # ys"
  by (induction xs) auto

lemma starts_with_append_Cons:
  "\<not> P c \<Longrightarrow> starts_with P (xs @ c # ys) = starts_with P xs"
  by (cases xs) auto

lemma collapseSpaces_append_Cons:
  "\<not> is_space c \<Longrightarrow>
   collapseSpaces (xs @ c # ys) = collapseSpaces xs @ c # collapseSpaces ys"
proof (induction xs rule: collapseSpaces.induct)
  case 1
  then show ?case by simp
next
  case (2 d ds)
  then show ?case
    by (simp add: dropWhile_append_nonspace starts_with_append_Cons)
qed

lemma starts_with_append_Cons_any:
  "starts_with Q (xs @ c # ys) = starts_with Q (xs @ [c])"
  by (cases xs) auto

lemma closeTagGaps_append_Cons:
  "\<not> is_space c \<Longrightarrow> c \<noteq> CHR ''>'' \<Longrightarrow>
   closeTagGaps (xs @ c # ys) = closeTagGaps (xs @ [c]) @ closeTagGaps ys"
proof (induction xs rule: length_induct)
  case (1 xs)
  note c = "1.prems"
  show ?case
  proof (cases xs)
    case Nil
    with c show ?thesis by simp
  next
    case (Cons d ds)
    let ?A = "dropWhile is_space ds"
    have dw: "dropWhile is_space (ds @ c # zs) = ?A @ c # zs" for zs
      using c(1) by (rule dropWhile_append_nonspace)
    have sw: "starts_with is_space (ds @ c # zs) = starts_with is_space ds" for zs
      using c(1) by (rule starts_with_append_Cons)
    show ?thesis
    proof (cases "d = CHR ''>'' \<and> starts_with is_space ds
         \<and> starts_with (\<lambda>e. e = CHR ''<'') (?A @ [c])")
      case True
      then have m: "d = CHR ''>''" "starts_with is_space ds"
        "starts_with (\<lambda>e. e = CHR ''<'') (?A @ c # ys)"
        using starts_with_append_Cons_any [of "\<lambda>e. e = CHR ''<''" ?A c ys] by simp_all
      have tl_eq: "closeTagGaps (tl (?A @ c # ys)) = closeTagGaps (tl (?A @ [c])) @ closeTagGaps ys"
      proof (cases ?A)
        case Nil
        show ?thesis unfolding Nil by simp
      next
        case (Cons a as)
        have "length as < length xs"
          using length_dropWhile_le [of is_space ds] Cons \<open>xs = d # ds\<close> by simp
        with "1.IH" c have "closeTagGaps (as @ c # ys) = closeTagGaps (as @ [c]) @ closeTagGaps ys"
          by blast
        with Cons show ?thesis by simp
      qed
      from True m tl_eq show ?thesis
        unfolding Cons by (simp add: dw [of ys] dw [of "[]"] sw [of ys] sw [of "[]"])
    next
      case False
      then have nm: "\<not> (d = CHR ''>'' \<and> starts_with is_space ds
         \<and> starts_with (\<lambda>e. e = CHR ''<'') (?A @ c # ys))"
        using starts_with_append_Cons_any [of "\<lambda>e. e = CHR ''<''" ?A c ys] by simp
      have "length ds < length xs" using Cons by simp
      with "1.IH" c have "closeTagGaps (ds @ c # ys) = closeTagGaps (ds @ [c]) @ closeTagGaps ys"
        by blast
      with False nm show ?thesis
        unfolding Cons by (auto simp add: dw [of ys] dw [of "[]"] sw [of ys] sw [of "[]"])
    qed
  qed
qed

lemma removeLineBreaks_append [simp]:
  "removeLineBreaks (xs @ ys) = removeLineBreaks xs @ removeLineBreaks ys"
  by (simp add: removeLineBreaks_def)

lemma removeLineBreaks_Cons_nonspace:
  "\<not> is_space c \<Longrightarrow> removeLineBreaks (c # ys) = c # removeLineBreaks ys"
  by (auto simp: removeLineBreaks_def is_space_def)

lemma squeeze_Cons:
  "\<not> is_space c \<Longrightarrow> c \<noteq> CHR ''>'' \<Longrightarrow> squeeze (c # ys) = c # squeeze ys"
  by (simp add: squeeze_def removeLineBreaks_Cons_nonspace)

lemma squeeze_name:
  "list_all (\<lambda>c. \<not> is_space c \<and> c \<noteq> CHR ''>'') n \<Longrightarrow> squeeze (n @ ys) = n @ squeeze ys"
  by (induction n) (simp_all add: squeeze_Cons)

lemma closeTagGaps_no_gt:
  "CHR ''>'' \<notin> set xs \<Longrightarrow> closeTagGaps (xs @ ys) = xs @ closeTagGaps ys"
  by (induction xs) auto

lemma list_all_space_collapse:
  "list_all is_space xs \<Longrightarrow> list_all is_space (collapseSpaces xs)"
  using set_collapseSpaces [of xs] by (auto simp: list_all_iff)

lemma squeeze_text:
  assumes "textOk t"
  shows "squeeze (CHR ''>'' # t @ CHR ''<'' # ys) = CHR ''>'' # normText t @ squeeze (CHR ''<'' # ys)"
proof -
  let ?u = "collapseSpaces (removeLineBreaks t)"
  have t: "CHR ''<'' \<notin> set t" "CHR ''>'' \<notin> set t"
    using assms by (auto simp: textOk_def list_all_iff)
  have "set ?u \<subseteq> insert CHR '' '' (set (removeLineBreaks t))"
    by (rule set_collapseSpaces)
  with t have u: "CHR ''<'' \<notin> set ?u" "CHR ''>'' \<notin> set ?u"
    by (auto simp: removeLineBreaks_def)
  have 1: "collapseSpaces (removeLineBreaks (CHR ''>'' # t @ CHR ''<'' # ys))
      = CHR ''>'' # ?u @ CHR ''<'' # collapseSpaces (removeLineBreaks ys)"
    by (simp add: removeLineBreaks_Cons_nonspace collapseSpaces_append_Cons)
  have 2: "closeTagGaps (CHR ''>'' # ?u @ CHR ''<'' # zs)
      = CHR ''>'' # (if list_all is_space ?u then [] else ?u) @ CHR ''<'' # closeTagGaps zs" for zs
  proof (cases "list_all is_space ?u")
    case True
    then have dw: "dropWhile is_space (?u @ CHR ''<'' # zs) = CHR ''<'' # zs"
      by (simp add: dropWhile_append list_all_iff)
    show ?thesis
    proof (cases ?u)
      case Nil
      then show ?thesis by simp
    next
      case (Cons a as)
      with True have "starts_with is_space (?u @ CHR ''<'' # zs)" by simp
      with True dw show ?thesis by simp
    qed
  next
    case False
    then obtain x where x: "x \<in> set ?u" "\<not> is_space x"
      by (auto simp: list_all_iff)
    then have "dropWhile is_space (?u @ CHR ''<'' # zs) = dropWhile is_space ?u @ CHR ''<'' # zs"
      by (simp add: dropWhile_append1)
    moreover have "dropWhile is_space ?u \<noteq> []"
      using x by (auto simp: dropWhile_eq_Nil_conv)
    moreover have "set (dropWhile is_space ?u) \<subseteq> set ?u"
      by (rule set_dropWhileD [THEN subsetI])
    ultimately have "\<not> starts_with (\<lambda>e. e = CHR ''<'') (dropWhile is_space (?u @ CHR ''<'' # zs))"
      using u(1) by (cases "dropWhile is_space ?u") auto
    with False u(2) show ?thesis
      by (simp add: closeTagGaps_no_gt)
  qed
  show ?thesis
    unfolding squeeze_def 1 2 normText_def Let_def
    by (simp add: removeLineBreaks_Cons_nonspace)
qed

lemma nameOk_lt: "nameOk n \<Longrightarrow> list_all (\<lambda>c. \<not> is_space c \<and> c \<noteq> CHR ''>'') (CHR ''<'' # n)"
  by (auto simp: nameOk_def list_all_iff)

lemma piece_pair [simp]: "piece (t, n) = CHR ''>'' # t @ CHR ''<'' # n"
  by (simp add: piece_def)

lemma normToken_pair [simp]: "normToken (t, n) = (normText t, n)"
  by (simp add: normToken_def)

lemma squeeze_pieces:
  "list_all tokenOk toks \<Longrightarrow>
   squeeze (concat (map piece toks) @ ''>'') = concat (map piece (map normToken toks)) @ ''>''"
proof (induction toks)
  case Nil
  show ?case by (simp add: squeeze_def removeLineBreaks_def)
next
  case (Cons p toks)
  obtain t n where p: "p = (t, n)" by (cases p)
  from Cons.prems have "tokenOk p" and ok3: "list_all tokenOk toks"
    by simp_all
  then have ok: "textOk t" "nameOk n"
    by (simp_all add: p tokenOk_def)
  let ?rest = "concat (map piece toks) @ ''>''"
  have "squeeze (concat (map piece (p # toks)) @ ''>'')
      = squeeze (CHR ''>'' # t @ CHR ''<'' # (n @ ?rest))"
    by (simp add: p)
  also have "\<dots> = CHR ''>'' # normText t @ squeeze ((CHR ''<'' # n) @ ?rest)"
    using squeeze_text [OF ok(1)] by simp
  also have "squeeze ((CHR ''<'' # n) @ ?rest) = (CHR ''<'' # n) @ squeeze ?rest"
    by (rule squeeze_name [OF nameOk_lt [OF ok(2)]])
  also have "squeeze ?rest = concat (map piece (map normToken toks)) @ ''>''"
    by (rule Cons.IH [OF ok3])
  finally show ?case
    by (simp add: p)
qed

subsection \<open>The assembled document as tokens\<close>

lemma join_Cons:
  "join sep (x # xs) = x @ (if xs = [] then [] else sep @ join sep xs)"
  by (cases xs) simp_all

lemma join_Nil_sep [simp]: "join [] xs = concat xs"
proof (induction xs)
  case Nil
  show ?case by simp
next
  case (Cons x xs)
  then show ?case by (cases xs) simp_all
qed

lemma thrusterXml_pair:
  "thrusterXml (idx, thruster) =
     ''        <thrusters'' @ digits (idx + 1) @ ''>'' @ escapeXml thruster
     @ ''</thrusters'' @ digits (idx + 1) @ ''>''"
  by (simp add: thrusterXml_def)

lemma thrusters_shape:
  "CHR ''>'' # lead @ join ''\<newline>'' (map thrusterXml (enumerate n ts)) @ ''\<newline>          </thrusters''
   = concat (map piece (thrusterTokens lead n ts))"
proof (induction ts arbitrary: lead n)
  case Nil
  show ?case by simp
next
  case (Cons t ts)
  show ?case
  proof (cases ts)
    case Nil
    then show ?thesis by (simp add: thrusterXml_pair)
  next
    case (Cons t' ts')
    have "CHR ''>'' # ''\<newline>'' @ join ''\<newline>'' (map thrusterXml (enumerate (Suc n) ts))
          @ ''\<newline>          </thrusters''
        = concat (map piece (thrusterTokens ''\<newline>'' (Suc n) ts))"
      by (rule Cons.IH)
    then show ?thesis
      unfolding Cons by (simp add: thrusterXml_pair)
  qed
qed

lemma part_shape:
  "CHR ''>'' # physicsPart st m = concat (map piece (partTokens st m)) @ ''>''"
  using thrusters_shape [of "''\<newline>    ''" 0 "thrusters (physicsConfig st m)"]
  by (simp add: physicsPart_def partTokens_def thrustersXml_def Let_def)

lemma shape_append:
  "CHR ''>'' # s = pieces @ ''>'' \<Longrightarrow> CHR ''>'' # s @ rest = pieces @ CHR ''>'' # rest"
  by (metis append_Cons append_assoc append_Nil)

lemma parts_shape:
  "CHR ''>'' # concat (map (physicsPart st) ms) @ rest
   = concat (map piece (concat (map (partTokens st) ms))) @ CHR ''>'' # rest"
proof (induction ms)
  case Nil
  show ?case by simp
next
  case (Cons m ms)
  have "CHR ''>'' # concat (map (physicsPart st) (m # ms)) @ rest
      = CHR ''>'' # physicsPart st m @ (concat (map (physicsPart st) ms) @ rest)"
    by simp
  also have "\<dots> = concat (map piece (partTokens st m))
      @ CHR ''>'' # (concat (map (physicsPart st) ms) @ rest)"
    by (rule shape_append [OF part_shape])
  also have "CHR ''>'' # (concat (map (physicsPart st) ms) @ rest)
      = concat (map piece (concat (map (partTokens st) ms))) @ CHR ''>'' # rest"
    using Cons.IH by simp
  finally show ?case by simp
qed

lemma render_shape:
  "CHR ''>'' # renderInterface st = concat (map piece (renderTokens st)) @ ''>''"
  by (simp add: renderInterface_def renderTokens_def)

lemma physics_shape:
  "CHR ''>'' # physicsEngineInterface st = concat (map piece (physicsTokens st)) @ ''>''"
  using parts_shape [of st "filter (physicsModes st) physicsModeKeys"]
  by (simp add: physicsEngineInterface_def physicsTokens_def physicsParts_def)

lemma waypointXml_pair:
  "waypointXml (lat, lng) =
     ''<waypoint>'' @ numberToString lat @ '' '' @ numberToString lng @ ''</waypoint>''"
  by (simp add: waypointXml_def)

lemma waypoints_shape:
  "CHR ''>'' # lead @ concat (map waypointXml wps) @ ''\<newline>          </waypoints''
   = concat (map piece (waypointTokens lead wps))"
proof (induction wps arbitrary: lead)
  case Nil
  show ?case by simp
next
  case (Cons wp wps)
  have "CHR ''>'' # [] @ concat (map waypointXml wps) @ ''\<newline>          </waypoints''
      = concat (map piece (waypointTokens [] wps))"
    by (rule Cons.IH)
  then show ?case
    by (cases wp) (simp add: waypointXml_pair)
qed

lemma followers_cases:
  "followers w =
     (if mode w = ''waypoints'' \<and> waypoints w \<noteq> [] then [waypointsFollower w]
      else if mode w = ''line'' then [lineFollower w]
      else if mode w = ''circle'' then [circleFollower w]
      else [])"
  by (auto simp: followers_def)

lemma waypointFollower_shape:
  "CHR ''>'' # waypointFollowerInterface st = concat (map piece (waypointFollowerTokens st)) @ ''>''"
  using waypoints_shape [of "''\<newline>            ''" "waypoints (waypointFollower st)"]
  by (simp add: waypointFollowerInterface_def waypointFollowerTokens_def followers_cases
      followerTokens_def limitTokens_def waypointsFollower_def lineFollower_def
      circleFollower_def commonLimits_def)

lemma document_shape:
  "''<lotus_param>'' @ renderInterface st @ physicsEngineInterface st
     @ waypointFollowerInterface st @ ''</lotus_param>''
   = ''<lotus_param'' @ concat (map piece (rawTokens st)) @ ''>''"
  by (simp add: rawTokens_def shape_append [OF render_shape] shape_append [OF physics_shape]
      shape_append [OF waypointFollower_shape])

subsection \<open>Characters of printed numbers and escaped strings\<close>

lemma digits_chars: "set (digits n) \<subseteq> set ''0123456789''"
proof -
  define D where "D = set ''0123456789''"
  have d: "''0123456789'' ! k \<in> D" if "k < 10" for k
    unfolding D_def using that by (intro nth_mem) simp
  have "set (digits n) \<subseteq> D"
  proof (induction n rule: digits.induct)
    case (1 n)
    show ?case
    proof (cases "n < 10")
      case True
      then have "digits n = [''0123456789'' ! n]"
        by (subst digits.simps) simp
      with d [OF True] show ?thesis by simp
    next
      case False
      then have "digits n = digits (n div 10) @ [''0123456789'' ! (n mod 10)]"
        by (subst digits.simps) simp
      moreover have "''0123456789'' ! (n mod 10) \<in> D"
        by (rule d) simp
      ultimately show ?thesis using 1 [OF False] by simp
    qed
  qed
  then show ?thesis by (simp only: D_def)
qed

lemma digits_nonempty: "digits n \<noteq> []"
  by (subst digits.simps) simp

lemma digits_numberChars: "set (digits n) \<subseteq> numberChars"
proof -
  have "set ''0123456789'' \<subseteq> numberChars"
    by (simp add: numberChars_def)
  with digits_chars [of n] show ?thesis by (rule subset_trans)
qed

lemma finiteToString_chars: "set (finiteToString s n) \<subseteq> numberChars"
proof -
  have t: "set (take k (digits s)) \<subseteq> numberChars" for k
    using set_take_subset [of k "digits s"] digits_numberChars [of s] by (rule subset_trans)
  have d: "set (drop k (digits s)) \<subseteq> numberChars" for k
    using set_drop_subset [of k "digits s"] digits_numberChars [of s] by (rule subset_trans)
  have c: "CHR ''0'' \<in> numberChars" "CHR ''.'' \<in> numberChars" "CHR ''e'' \<in> numberChars"
    "CHR ''+'' \<in> numberChars" "CHR ''-'' \<in> numberChars"
    by (simp_all add: numberChars_def)
  have r: "set (replicate k CHR ''0'') \<subseteq> numberChars" for k
    using c(1) by (auto simp: set_replicate_conv_if)
  show ?thesis
    unfolding finiteToString_def Let_def
    by (simp add: t d c r digits_numberChars)
qed

lemma finiteToString_nonempty: "finiteToString s n \<noteq> []"
  using digits_nonempty [of s] by (auto simp: finiteToString_def Let_def)

lemma numberToString_chars: "set (numberToString x) \<subseteq> numberChars"
proof (cases x)
  case (Finite neg s n)
  have "CHR ''-'' \<in> numberChars" by (simp add: numberChars_def)
  with finiteToString_chars [of s n] Finite show ?thesis by auto
qed (auto simp: numberChars_def)

lemma numberToString_nonempty: "numberToString x \<noteq> []"
  using finiteToString_nonempty by (cases x) auto

lemma numberChars_plain:
  "c \<in> numberChars \<Longrightarrow>
   \<not> is_space c \<and> c \<noteq> CHR ''<'' \<and> c \<noteq> CHR ''>'' \<and> c \<noteq> CHR ''&'' \<and> c \<noteq> CHR 0x22 \<and> c \<noteq> CHR 0x27"
  by (auto simp: numberChars_def is_space_def)

lemma replace_char_append:
  "replace_char x r (xs @ ys) = replace_char x r xs @ replace_char x r ys"
  by (simp add: replace_char_def)

lemma replace_char_concat_map:
  "replace_char x r (concat (map f xs)) = concat (map (\<lambda>c. replace_char x r (f c)) xs)"
  by (induction xs) (simp_all add: replace_char_append, simp add: replace_char_def)

lemma escapeXml_map: "escapeXml str = concat (map escapeChar str)"
proof -
  have "replace_char CHR ''&'' ''&amp;'' str
      = concat (map (\<lambda>c. if c = CHR ''&'' then ''&amp;'' else [c]) str)"
    by (simp add: replace_char_def)
  then have "escapeXml str = concat (map (\<lambda>c.
      replace_char (CHR 0x27) ''&apos;''
       (replace_char (CHR 0x22) ''&quot;''
         (replace_char CHR ''>'' ''&gt;''
           (replace_char CHR ''<'' ''&lt;''
             (if c = CHR ''&'' then ''&amp;'' else [c]))))) str)"
    by (simp add: escapeXml_def replace_char_concat_map)
  also have "\<dots> = concat (map escapeChar str)"
    by (rule arg_cong [where f = concat], rule map_cong [OF refl])
       (simp add: escapeChar_def replace_char_def)
  finally show ?thesis .
qed

lemma escapeChar_textOk: "textOk (escapeChar c)"
  by (simp add: escapeChar_def textOk_def)

lemma textOk_append [simp]: "textOk (xs @ ys) \<longleftrightarrow> textOk xs \<and> textOk ys"
  by (simp add: textOk_def)

lemma escapeXml_textOk: "textOk (escapeXml str)"
  unfolding escapeXml_map
  by (induction str) (simp_all add: escapeChar_textOk, simp add: textOk_def)

lemma numberToString_textOk: "textOk (numberToString x)"
  using numberToString_chars [of x] numberChars_plain
  by (auto simp: textOk_def list_all_iff)

lemma booleanToString_textOk: "textOk (booleanToString b)"
  by (simp add: booleanToString_def textOk_def)

lemma nameOk_append [simp]: "nameOk (xs @ ys) \<longleftrightarrow> nameOk xs \<and> nameOk ys"
  by (simp add: nameOk_def)

lemma digits_nameOk: "nameOk (digits n)"
  using digits_numberChars [of n] numberChars_plain
  by (auto simp: nameOk_def list_all_iff)

lemma modeKey_nameOk: "nameOk (modeKey m)"
  by (cases m) (simp_all add: nameOk_def is_space_def)

subsection \<open>The tokens of the assembled document are well formed\<close>

lemma tokenOk_pair [simp]: "tokenOk (t, n) \<longleftrightarrow> textOk t \<and> nameOk n"
  by (simp add: tokenOk_def)

lemma textOk_Nil [simp]: "textOk []"
  by (simp add: textOk_def)

lemma textOk_Cons [simp]:
  "textOk (c # cs) \<longleftrightarrow> c \<noteq> CHR ''<'' \<and> c \<noteq> CHR ''>'' \<and> textOk cs"
  by (simp add: textOk_def)

lemma nameOk_Nil [simp]: "nameOk []"
  by (simp add: nameOk_def)

lemma nameOk_Cons [simp]:
  "nameOk (c # cs) \<longleftrightarrow> \<not> is_space c \<and> c \<noteq> CHR ''<'' \<and> c \<noteq> CHR ''>'' \<and> nameOk cs"
  by (simp add: nameOk_def)

lemma thrusterTokens_ok:
  "textOk lead \<Longrightarrow> list_all tokenOk (thrusterTokens lead n ts)"
proof (induction ts arbitrary: lead n)
  case Nil
  then show ?case by (simp add: is_space_def)
next
  case (Cons t ts)
  have "textOk (if ts = [] then [] else ''\<newline>'')" by simp
  then have "list_all tokenOk (thrusterTokens (if ts = [] then [] else ''\<newline>'') (Suc n) ts)"
    by (rule Cons.IH)
  with Cons.prems show ?case
    by (simp add: escapeXml_textOk digits_nameOk is_space_def)
qed

lemma waypointTokens_ok:
  "textOk lead \<Longrightarrow> list_all tokenOk (waypointTokens lead wps)"
proof (induction wps arbitrary: lead)
  case Nil
  then show ?case by (simp add: is_space_def)
next
  case (Cons wp wps)
  have "list_all tokenOk (waypointTokens [] wps)"
    by (rule Cons.IH) simp
  with Cons.prems show ?case
    by (simp add: numberToString_textOk is_space_def)
qed

lemma partTokens_ok: "list_all tokenOk (partTokens st m)"
  using thrusterTokens_ok [of "''\<newline>    ''" 0 "thrusters (physicsConfig st m)"]
  by (simp add: partTokens_def escapeXml_textOk modeKey_nameOk is_space_def)

lemma renderTokens_ok: "list_all tokenOk (renderTokens st)"
  by (simp add: renderTokens_def escapeXml_textOk booleanToString_textOk is_space_def)

lemma partsTokens_ok: "list_all tokenOk (concat (map (partTokens st) ms))"
  by (induction ms) (simp_all add: partTokens_ok)

lemma physicsTokens_ok: "list_all tokenOk (physicsTokens st)"
  by (simp add: physicsTokens_def escapeXml_textOk partsTokens_ok is_space_def)

lemma limitTokens_ok: "list_all tokenOk (limitTokens w)"
  by (simp add: limitTokens_def numberToString_textOk booleanToString_textOk is_space_def)

lemma followerTokens_ok: "list_all tokenOk (followerTokens w)"
  using waypointTokens_ok [of "''\<newline>            ''" "waypoints w"]
  by (simp add: followerTokens_def limitTokens_ok numberToString_textOk is_space_def)

lemma waypointFollowerTokens_ok: "list_all tokenOk (waypointFollowerTokens st)"
  by (simp add: waypointFollowerTokens_def followerTokens_ok is_space_def)

lemma rawTokens_ok: "list_all tokenOk (rawTokens st)"
  by (simp add: rawTokens_def renderTokens_ok physicsTokens_ok waypointFollowerTokens_ok is_space_def)

subsection \<open>The serialized document in closed form\<close>

lemma generateLotusParamXML_tokens:
  "generateLotusParamXML st = ''<lotus_param'' @ concat (map piece (outTokens st)) @ ''>''"
proof -
  let ?out = "''<lotus_param'' @ concat (map piece (outTokens st)) @ ''>''"
  have "squeeze (''<lotus_param'' @ concat (map piece (rawTokens st)) @ ''>'')
      = ''<lotus_param'' @ squeeze (concat (map piece (rawTokens st)) @ ''>'')"
    by (rule squeeze_name) (simp add: is_space_def)
  also have "squeeze (concat (map piece (rawTokens st)) @ ''>'')
      = concat (map piece (outTokens st)) @ ''>''"
    unfolding outTokens_def by (rule squeeze_pieces [OF rawTokens_ok])
  finally have "generateLotusParamXML st = trim ?out"
    by (simp only: generateLotusParamXML_def normalize_def document_shape squeeze_def)
  also have "\<dots> = ?out"
    by (rule trim_fixed) (simp_all add: is_space_def)
  finally show ?thesis .
qed

section \<open>The serializer: the follower and thruster sections\<close>

lemma normText_Nil [simp]: "normText [] = []"
  by (simp add: normText_def removeLineBreaks_def)

lemma normText_spaces: "list_all is_space t \<Longrightarrow> normText t = []"
proof -
  assume "list_all is_space t"
  then have "list_all is_space (removeLineBreaks t)"
    by (simp add: removeLineBreaks_def list_all_iff)
  then have "list_all is_space (collapseSpaces (removeLineBreaks t))"
    by (rule list_all_space_collapse)
  then show ?thesis by (simp add: normText_def)
qed

lemma renderTokens_follower [simp]:
  "renderTokens (st\<lparr>waypointFollower := w\<rparr>) = renderTokens st"
  by (simp add: renderTokens_def)

lemma partTokens_follower [simp]:
  "partTokens (st\<lparr>waypointFollower := w\<rparr>) = partTokens st"
  by (rule ext) (simp add: partTokens_def)

lemma physicsTokens_follower [simp]:
  "physicsTokens (st\<lparr>waypointFollower := w\<rparr>) = physicsTokens st"
  by (simp add: physicsTokens_def)

subsection \<open>Counting tags\<close>

lemma occurrences_skip:
  "CHR ''<'' \<notin> set xs \<Longrightarrow> occurrences (CHR ''<'' # q) (xs @ ys) = occurrences (CHR ''<'' # q) ys"
  by (induction xs) auto

lemma tag_name_prefix:
  "CHR ''>'' \<notin> set n \<Longrightarrow> CHR ''>'' \<notin> set m \<Longrightarrow>
   take (Suc (length n)) (m @ CHR ''>'' # r) = n @ ''>'' \<longleftrightarrow> m = n"
proof (induction n arbitrary: m)
  case Nil
  then show ?case by (cases m) auto
next
  case (Cons a n)
  then show ?case by (cases m) auto
qed

lemma pieces_start: "\<exists>r. concat (map piece toks) @ ''>'' = CHR ''>'' # r"
  by (cases toks) (auto simp: piece_def split: prod.splits)

lemma nameOk_no_brackets: "nameOk n \<Longrightarrow> CHR ''<'' \<notin> set n \<and> CHR ''>'' \<notin> set n"
  by (auto simp: nameOk_def list_all_iff)

lemma textOk_no_brackets: "textOk t \<Longrightarrow> CHR ''<'' \<notin> set t \<and> CHR ''>'' \<notin> set t"
  by (auto simp: textOk_def list_all_iff)

lemma occurrences_tag:
  assumes "nameOk n" and "nameOk m"
  shows "occurrences (CHR ''<'' # n @ ''>'') (CHR ''<'' # m @ CHR ''>'' # r)
     = (if m = n then 1 else 0) + occurrences (CHR ''<'' # n @ ''>'') (CHR ''>'' # r)"
proof -
  have "occurrences (CHR ''<'' # n @ ''>'') (m @ CHR ''>'' # r)
      = occurrences (CHR ''<'' # n @ ''>'') (CHR ''>'' # r)"
    using assms(2) by (intro occurrences_skip) (simp add: nameOk_no_brackets)
  moreover have "take (Suc (length n)) (m @ CHR ''>'' # r) = n @ ''>'' \<longleftrightarrow> m = n"
    using assms by (intro tag_name_prefix) (simp_all add: nameOk_no_brackets)
  ultimately show ?thesis by simp
qed

lemma occurrences_pieces:
  assumes "nameOk n"
  shows "list_all tokenOk toks \<Longrightarrow>
     occurrences (CHR ''<'' # n @ ''>'') (concat (map piece toks) @ ''>'')
     = length (filter (\<lambda>p. snd p = n) toks)"
proof (induction toks)
  case Nil
  show ?case by simp
next
  case (Cons p toks)
  obtain t m where p: "p = (t, m)" by (cases p)
  from Cons.prems have ok: "textOk t" "nameOk m" and rest: "list_all tokenOk toks"
    by (simp_all add: p)
  obtain r where r: "concat (map piece toks) @ ''>'' = CHR ''>'' # r"
    using pieces_start by blast
  let ?pat = "CHR ''<'' # n @ ''>''"
  have "occurrences ?pat (concat (map piece (p # toks)) @ ''>'')
      = occurrences ?pat ((CHR ''>'' # t) @ CHR ''<'' # m @ CHR ''>'' # r)"
    by (simp add: p r)
  also have "\<dots> = occurrences ?pat (CHR ''<'' # m @ CHR ''>'' # r)"
    using ok(1) by (intro occurrences_skip) (simp add: textOk_no_brackets)
  also have "\<dots> = (if m = n then 1 else 0) + occurrences ?pat (CHR ''>'' # r)"
    by (rule occurrences_tag [OF assms ok(2)])
  also have "occurrences ?pat (CHR ''>'' # r) = length (filter (\<lambda>p. snd p = n) toks)"
    using Cons.IH [OF rest] by (simp only: r)
  finally show ?case by (simp add: p)
qed

lemma outTokens_ok: "list_all tokenOk (outTokens st)"
proof -
  have "tokenOk p \<Longrightarrow> tokenOk (normToken p)" for p
  proof -
    obtain t n where p: "p = (t, n)" by (cases p)
    have "set (normText t) \<subseteq> insert CHR '' '' (set t)"
      using set_collapseSpaces [of "removeLineBreaks t"]
      by (auto simp: normText_def removeLineBreaks_def Let_def)
    then show "tokenOk p \<Longrightarrow> tokenOk (normToken p)"
      by (auto simp: p textOk_def list_all_iff)
  qed
  with rawTokens_ok [of st] show ?thesis
    by (simp add: outTokens_def list_all_iff)
qed

lemma occurrences_document:
  assumes "nameOk n" and "n \<noteq> ''lotus_param''"
  shows "occurrences (CHR ''<'' # n @ ''>'') (generateLotusParamXML st)
     = length (filter (\<lambda>p. snd p = n) (rawTokens st))"
proof -
  obtain r where r: "concat (map piece (outTokens st)) @ ''>'' = CHR ''>'' # r"
    using pieces_start by blast
  have "nameOk ''lotus_param''" by (simp add: is_space_def)
  from occurrences_tag [OF assms(1) this, of r] assms(2)
  have "occurrences (CHR ''<'' # n @ ''>'') (generateLotusParamXML st)
      = occurrences (CHR ''<'' # n @ ''>'') (concat (map piece (outTokens st)) @ ''>'')"
    by (simp add: generateLotusParamXML_tokens r)
  also have "\<dots> = length (filter (\<lambda>p. snd p = n) (outTokens st))"
    by (rule occurrences_pieces [OF assms(1) outTokens_ok])
  also have "\<dots> = length (filter (\<lambda>p. snd p = n) (rawTokens st))"
    by (simp add: outTokens_def filter_map comp_def normToken_def split_def)
  finally show ?thesis .
qed

lemma thrusterTokens_no_follower:
  "filter (\<lambda>p. snd p = ''follower'') (thrusterTokens lead n ts) = []"
  by (induction ts arbitrary: lead n) simp_all

lemma waypointTokens_no_follower:
  "filter (\<lambda>p. snd p = ''follower'') (waypointTokens lead wps) = []"
  by (induction wps arbitrary: lead) simp_all

lemma partTokens_no_follower:
  "filter (\<lambda>p. snd p = ''follower'') (partTokens st m) = []"
  by (cases m) (simp_all add: partTokens_def thrusterTokens_no_follower)

lemma partsTokens_no_follower:
  "filter (\<lambda>p. snd p = ''follower'') (concat (map (partTokens st) ms)) = []"
  by (induction ms) (simp_all add: partTokens_no_follower)

lemma rawTokens_followers:
  "length (filter (\<lambda>p. snd p = ''follower'') (rawTokens st))
   = (if enabled (waypointFollower st)
         \<and> (mode (waypointFollower st) = ''line'' \<or> mode (waypointFollower st) = ''circle''
            \<or> (mode (waypointFollower st) = ''waypoints'' \<and> waypoints (waypointFollower st) \<noteq> []))
      then 1 else 0)"
  by (simp add: rawTokens_def renderTokens_def physicsTokens_def partsTokens_no_follower
      waypointFollowerTokens_def followerTokens_def limitTokens_def waypointTokens_no_follower)

text \<open>
  With the follower block enabled, mode \<open>waypoints\<close> and no waypoint, the document holds
  an empty \<open>waypoint_follower\<close> element, which the document of the disabled block lacks.
\<close>

theorem empty_waypoints_counterexample:
  "enabled (waypointFollower emptyWaypointsState)
   \<and> mode (waypointFollower emptyWaypointsState) = ''waypoints''
   \<and> waypoints (waypointFollower emptyWaypointsState) = []
   \<and> generateLotusParamXML emptyWaypointsState
       = ''<lotus_param><waypoint_follower></waypoint_follower></lotus_param>''
   \<and> generateLotusParamXML
         (emptyWaypointsState\<lparr>waypointFollower :=
            (waypointFollower emptyWaypointsState)\<lparr>enabled := False\<rparr>\<rparr>)
       = ''<lotus_param></lotus_param>''"
  by (simp add: generateLotusParamXML_tokens outTokens_def rawTokens_def renderTokens_def
      physicsTokens_def waypointFollowerTokens_def followerTokens_def emptyWaypointsState_def
      exampleState_def exampleFollower_def normText_spaces is_space_def)

text \<open>
  C2, as the code has it. With the follower block enabled, mode \<open>waypoints\<close> and an
  empty waypoint list, the document is the document of the same state with the block
  disabled, with an empty \<open>waypoint_follower\<close> element inserted in front of the closing
  root tag; it holds no \<open>follower\<close> element.
\<close>

theorem empty_waypoints_section:
  assumes "enabled (waypointFollower st)"
    and "mode (waypointFollower st) = ''waypoints''"
    and "waypoints (waypointFollower st) = []"
  shows "(\<exists>body.
     generateLotusParamXML (st\<lparr>waypointFollower := (waypointFollower st)\<lparr>enabled := False\<rparr>\<rparr>)
       = body @ ''</lotus_param>''
     \<and> generateLotusParamXML st
       = body @ ''<waypoint_follower></waypoint_follower></lotus_param>'')
   \<and> occurrences ''<follower>'' (generateLotusParamXML st) = 0"
proof (intro exI conjI)
  let ?body = "''<lotus_param'' @ concat (map piece (map normToken (renderTokens st @ physicsTokens st))) @ ''>''"
  show "generateLotusParamXML (st\<lparr>waypointFollower := (waypointFollower st)\<lparr>enabled := False\<rparr>\<rparr>)
       = ?body @ ''</lotus_param>''"
    by (simp add: generateLotusParamXML_tokens outTokens_def rawTokens_def
        waypointFollowerTokens_def)
  show "generateLotusParamXML st = ?body @ ''<waypoint_follower></waypoint_follower></lotus_param>''"
    using assms
    by (simp add: generateLotusParamXML_tokens outTokens_def rawTokens_def
        waypointFollowerTokens_def followerTokens_def normText_spaces is_space_def)
  show "occurrences ''<follower>'' (generateLotusParamXML st) = 0"
    using occurrences_document [of "''follower''" st] assms
    by (simp add: rawTokens_followers is_space_def)
qed

theorem empty_waypoints_section_witness:
  "enabled (waypointFollower emptyWaypointsState)
   \<and> mode (waypointFollower emptyWaypointsState) = ''waypoints''
   \<and> waypoints (waypointFollower emptyWaypointsState) = []
   \<and> (\<exists>body.
     generateLotusParamXML
         (emptyWaypointsState\<lparr>waypointFollower :=
            (waypointFollower emptyWaypointsState)\<lparr>enabled := False\<rparr>\<rparr>)
       = body @ ''</lotus_param>''
     \<and> generateLotusParamXML emptyWaypointsState
       = body @ ''<waypoint_follower></waypoint_follower></lotus_param>'')
   \<and> occurrences ''<follower>'' (generateLotusParamXML emptyWaypointsState) = 0"
  using empty_waypoints_section [of emptyWaypointsState]
  by (simp add: emptyWaypointsState_def exampleFollower_def)

text \<open>
  With the follower block enabled and no mode selected, the document holds no
  \<open>follower\<close> element.
\<close>

theorem no_mode_no_follower_counterexample:
  "enabled (waypointFollower noModeState)
   \<and> generateLotusParamXML noModeState
       = ''<lotus_param><waypoint_follower></waypoint_follower></lotus_param>''
   \<and> occurrences ''<follower>'' (generateLotusParamXML noModeState) = 0"
proof -
  have "generateLotusParamXML noModeState
      = ''<lotus_param><waypoint_follower></waypoint_follower></lotus_param>''"
    by (simp add: generateLotusParamXML_tokens outTokens_def rawTokens_def renderTokens_def
        physicsTokens_def waypointFollowerTokens_def followerTokens_def noModeState_def
        exampleState_def exampleFollower_def normText_spaces is_space_def)
  moreover have "occurrences ''<follower>'' (generateLotusParamXML noModeState) = 0"
    using occurrences_document [of "''follower''" noModeState]
    by (simp add: rawTokens_followers is_space_def)
       (simp add: noModeState_def exampleFollower_def)
  ultimately show ?thesis
    by (simp add: noModeState_def exampleFollower_def)
qed

text \<open>
  C4, as the code has it. The document never holds more than one \<open>follower\<close> element. It
  holds exactly one when the follower block is enabled and the mode is \<open>line\<close> or
  \<open>circle\<close>, or \<open>waypoints\<close> with at least one waypoint; otherwise it holds none.
\<close>

theorem follower_count:
  "occurrences ''<follower>'' (generateLotusParamXML st)
   = (if enabled (waypointFollower st)
         \<and> (mode (waypointFollower st) = ''line'' \<or> mode (waypointFollower st) = ''circle''
            \<or> (mode (waypointFollower st) = ''waypoints'' \<and> waypoints (waypointFollower st) \<noteq> []))
      then 1 else 0)"
  using occurrences_document [of "''follower''" st]
  by (simp add: rawTokens_followers is_space_def)

theorem follower_count_witness:
  "enabled (waypointFollower lineModeState) \<and> mode (waypointFollower lineModeState) = ''line''
   \<and> occurrences ''<follower>'' (generateLotusParamXML lineModeState) = 1"
  using follower_count [of lineModeState]
  by (simp add: lineModeState_def exampleFollower_def)

subsection \<open>The thruster elements\<close>

lemma thrusterElement_pair:
  "thrusterElement (idx, thruster) =
     ''<thrusters'' @ digits (idx + 1) @ ''>'' @ normText (escapeXml thruster)
     @ ''</thrusters'' @ digits (idx + 1) @ ''>''"
  by (simp add: thrusterElement_def)

lemma thrusters_pieces:
  "list_all is_space lead \<Longrightarrow>
   concat (map piece (map normToken (thrusterTokens lead n ts)))
   = CHR ''>'' # concat (map thrusterElement (enumerate n ts)) @ ''</thrusters''"
proof (induction ts arbitrary: lead n)
  case Nil
  then show ?case by (simp add: normText_spaces)
next
  case (Cons t ts)
  have "list_all is_space (if ts = [] then [] else ''\<newline>'')" by simp
  then have "concat (map piece (map normToken
        (thrusterTokens (if ts = [] then [] else ''\<newline>'') (Suc n) ts)))
      = CHR ''>'' # concat (map thrusterElement (enumerate (Suc n) ts)) @ ''</thrusters''"
    by (rule Cons.IH)
  with Cons.prems show ?case
    by (simp add: normText_spaces thrusterElement_pair)
qed

lemma part_pieces:
  "concat (map piece (map normToken (partTokens st m)))
   = ''><'' @ modeKey m @ ''><ConnectionType>''
     @ normText (escapeXml (connectionType (physicsConfig st m)))
     @ ''</ConnectionType><uri>'' @ normText (escapeXml (uri (physicsConfig st m)))
     @ ''</uri><thrusters>''
     @ concat (map thrusterElement (enumerate 0 (thrusters (physicsConfig st m))))
     @ ''</thrusters></'' @ modeKey m"
  using thrusters_pieces [of "''\<newline>    ''" 0 "thrusters (physicsConfig st m)"]
  by (simp add: partTokens_def normText_spaces)

lemma mode_element:
  assumes "physicsEnabled st" and "physicsModes st m"
  shows "\<exists>pre post. generateLotusParamXML st =
     pre @ ''<'' @ modeKey m @ ''><ConnectionType>''
     @ normText (escapeXml (connectionType (physicsConfig st m)))
     @ ''</ConnectionType><uri>'' @ normText (escapeXml (uri (physicsConfig st m)))
     @ ''</uri><thrusters>''
     @ concat (map thrusterElement (enumerate 0 (thrusters (physicsConfig st m))))
     @ ''</thrusters></'' @ modeKey m @ ''>'' @ post"
proof -
  have "m \<in> set physicsModeKeys"
    by (cases m) (simp_all add: physicsModeKeys_def)
  with assms(2) have "m \<in> set (filter (physicsModes st) physicsModeKeys)" by simp
  from split_list [OF this]
  obtain ms1 ms2 where ms: "filter (physicsModes st) physicsModeKeys = ms1 @ m # ms2"
    by blast
  define before where "before = renderTokens st
      @ (''\<newline>      '', ''physics_engine_interface'') # concat (map (partTokens st) ms1)"
  define after where "after = concat (map (partTokens st) ms2)
      @ [(''\<newline>        '', ''init_state''), (escapeXml (initState st), ''/init_state''),
         (''\<newline>      '', ''/physics_engine_interface'')]
      @ waypointFollowerTokens st @ [([], ''/lotus_param'')]"
  have "rawTokens st = before @ partTokens st m @ after"
    using assms(1) by (simp add: rawTokens_def physicsTokens_def ms before_def after_def)
  then have out: "generateLotusParamXML st
      = (''<lotus_param'' @ concat (map piece (map normToken before)))
        @ concat (map piece (map normToken (partTokens st m)))
        @ (concat (map piece (map normToken after)) @ ''>'')"
    by (simp add: generateLotusParamXML_tokens outTokens_def)
  obtain r where r: "concat (map piece (map normToken after)) @ ''>'' = CHR ''>'' # r"
    using pieces_start by blast
  show ?thesis
    unfolding out part_pieces r
    by (intro exI [of _ "(''<lotus_param'' @ concat (map piece (map normToken before))) @ ''>''"]
        exI [of _ r]) simp
qed

lemma no_space_collapse: "\<forall>c\<in>set t. \<not> is_space c \<Longrightarrow> collapseSpaces t = t"
  by (induction t) auto

lemma normText_no_space:
  assumes "\<forall>c\<in>set t. \<not> is_space c"
  shows "normText t = t"
proof -
  have "removeLineBreaks t = t"
    unfolding removeLineBreaks_def using assms by (intro filter_True) (auto simp: is_space_def)
  moreover have "list_all is_space t \<longleftrightarrow> t = []"
    using assms by (cases t) auto
  ultimately show ?thesis
    using assms by (auto simp: normText_def no_space_collapse)
qed

lemma escapeXml_plain:
  "\<forall>c\<in>set t. \<not> reserved c \<Longrightarrow> escapeXml t = t"
  unfolding escapeXml_map
  by (induction t) (auto simp: escapeChar_def reserved_def)

text \<open>
  C6, as the code has it. When the physics block and one of its modes are enabled, the
  document holds that mode's element, and in it, between \<open><thrusters>\<close> and
  \<open></thrusters>\<close>, exactly one element per thruster, in the order of the thruster list
  and named by 1-based position. The content of each is the escaped thruster name after
  whitespace normalization; for a name without whitespace and without reserved
  characters it is the name itself.
\<close>

theorem thrusters_in_order:
  assumes "physicsEnabled st" and "physicsModes st m"
  shows "(\<exists>pre post. generateLotusParamXML st =
       pre @ ''<'' @ modeKey m @ ''><ConnectionType>''
       @ normText (escapeXml (connectionType (physicsConfig st m)))
       @ ''</ConnectionType><uri>'' @ normText (escapeXml (uri (physicsConfig st m)))
       @ ''</uri><thrusters>''
       @ concat (map thrusterElement (enumerate 0 (thrusters (physicsConfig st m))))
       @ ''</thrusters></'' @ modeKey m @ ''>'' @ post)
     \<and> (list_all (\<lambda>c. \<not> is_space c \<and> \<not> reserved c) t \<longrightarrow>
          thrusterElement (i, t)
          = ''<thrusters'' @ digits (i + 1) @ ''>'' @ t @ ''</thrusters'' @ digits (i + 1) @ ''>'')"
proof (intro conjI impI)
  show "\<exists>pre post. generateLotusParamXML st =
       pre @ ''<'' @ modeKey m @ ''><ConnectionType>''
       @ normText (escapeXml (connectionType (physicsConfig st m)))
       @ ''</ConnectionType><uri>'' @ normText (escapeXml (uri (physicsConfig st m)))
       @ ''</uri><thrusters>''
       @ concat (map thrusterElement (enumerate 0 (thrusters (physicsConfig st m))))
       @ ''</thrusters></'' @ modeKey m @ ''>'' @ post"
    by (rule mode_element [OF assms])
next
  assume "list_all (\<lambda>c. \<not> is_space c \<and> \<not> reserved c) t"
  then have "escapeXml t = t" and "normText t = t"
    by (simp_all add: escapeXml_plain normText_no_space list_all_iff)
  then show "thrusterElement (i, t)
      = ''<thrusters'' @ digits (i + 1) @ ''>'' @ t @ ''</thrusters'' @ digits (i + 1) @ ''>''"
    by (simp add: thrusterElement_pair)
qed

lemma digits_small: "n < 10 \<Longrightarrow> digits n = [''0123456789'' ! n]"
  by (subst digits.simps) simp

theorem thrusters_in_order_witness:
  "physicsEnabled physicsState \<and> physicsModes physicsState Surface
   \<and> thrusters (physicsConfig physicsState Surface) = [''A'', ''B'', ''C'']
   \<and> list_all (\<lambda>c. \<not> is_space c \<and> \<not> reserved c) ''A''
   \<and> (\<exists>pre post. generateLotusParamXML physicsState =
        pre @ ''<surface><ConnectionType>TCPIP</ConnectionType><uri>tcp://h:1</uri><thrusters><thrusters1>A</thrusters1><thrusters2>B</thrusters2><thrusters3>C</thrusters3></thrusters></surface>'' @ post)
   \<and> thrusterElement (0, ''A'') = ''<thrusters1>A</thrusters1>''"
  using thrusters_in_order [of physicsState Surface "''A''" 0]
  by (simp add: physicsState_def exampleState_def thrusterElement_pair digits_small
      normText_def removeLineBreaks_def escapeXml_def replace_char_def is_space_def reserved_def)

text \<open>
  A thruster name with two adjacent spaces reaches the document with one space.
\<close>

theorem double_space_thruster_counterexample:
  "physicsEnabled doubleSpaceState \<and> physicsModes doubleSpaceState Surface
   \<and> thrusters (physicsConfig doubleSpaceState Surface) = [''A  B'']
   \<and> generateLotusParamXML doubleSpaceState
       = ''<lotus_param><physics_engine_interface><surface><ConnectionType>TCPIP</ConnectionType><uri>tcp://h:1</uri><thrusters><thrusters1>A B</thrusters1></thrusters></surface><init_state>Surface</init_state></physics_engine_interface></lotus_param>''
   \<and> occurrences ''<thrusters1>A  B</thrusters1>'' (generateLotusParamXML doubleSpaceState) = 0"
proof -
  have out: "generateLotusParamXML doubleSpaceState
       = ''<lotus_param><physics_engine_interface><surface><ConnectionType>TCPIP</ConnectionType><uri>tcp://h:1</uri><thrusters><thrusters1>A B</thrusters1></thrusters></surface><init_state>Surface</init_state></physics_engine_interface></lotus_param>''"
    by (simp add: generateLotusParamXML_tokens outTokens_def rawTokens_def renderTokens_def
      physicsTokens_def partTokens_def waypointFollowerTokens_def physicsModeKeys_def
      doubleSpaceState_def exampleState_def exampleFollower_def digits_small
      normText_def removeLineBreaks_def escapeXml_def replace_char_def is_space_def)
  show ?thesis
    unfolding out
    by (simp add: doubleSpaceState_def exampleState_def)
qed

section \<open>The serializer: escaping\<close>

subsection \<open>Reserved characters occur in escaped form only\<close>

lemma startsEntity_iff:
  "startsEntity cs \<longleftrightarrow> (\<exists>e\<in>set entities. \<exists>r. cs = e @ r)"
proof
  assume "startsEntity cs"
  then obtain e where e: "e \<in> set entities" "take (length e) cs = e"
    by (auto simp: startsEntity_def list_ex_iff)
  have "cs = take (length e) cs @ drop (length e) cs" by simp
  with e(2) have "cs = e @ drop (length e) cs" by simp
  with e(1) show "\<exists>e\<in>set entities. \<exists>r. cs = e @ r" by blast
next
  assume "\<exists>e\<in>set entities. \<exists>r. cs = e @ r"
  then obtain e r where e: "e \<in> set entities" "cs = e @ r" by blast
  then have "take (length e) cs = e" by simp
  with e(1) show "startsEntity cs"
    unfolding startsEntity_def list_ex_iff by blast
qed

lemma startsEntity_append: "startsEntity cs \<Longrightarrow> startsEntity (cs @ ys)"
  unfolding startsEntity_iff by (metis append_assoc)

lemma entity_chars:
  "e \<in> set entities \<Longrightarrow> c \<in> set e \<Longrightarrow> \<not> is_space c"
  by (auto simp: entities_def is_space_def)

lemma removeLineBreaks_keeps:
  "\<forall>c\<in>set e. \<not> is_space c \<Longrightarrow> removeLineBreaks e = e"
  unfolding removeLineBreaks_def by (rule filter_True) (auto simp: is_space_def)

lemma collapseSpaces_keeps:
  "\<forall>c\<in>set e. \<not> is_space c \<Longrightarrow> collapseSpaces (e @ r) = e @ collapseSpaces r"
  by (induction e) simp_all

lemma startsEntity_removeLineBreaks:
  assumes "startsEntity cs"
  shows "startsEntity (removeLineBreaks cs)"
proof -
  from assms obtain e r where e: "e \<in> set entities" "cs = e @ r"
    unfolding startsEntity_iff by blast
  then have "removeLineBreaks cs = e @ removeLineBreaks r"
    using entity_chars [OF e(1)] by (simp add: removeLineBreaks_keeps)
  with e(1) show ?thesis unfolding startsEntity_iff by blast
qed

lemma startsEntity_collapseSpaces:
  assumes "startsEntity cs"
  shows "startsEntity (collapseSpaces cs)"
proof -
  from assms obtain e r where e: "e \<in> set entities" "cs = e @ r"
    unfolding startsEntity_iff by blast
  then have "collapseSpaces cs = e @ collapseSpaces r"
    using entity_chars [OF e(1)] by (simp add: collapseSpaces_keeps)
  with e(1) show ?thesis unfolding startsEntity_iff by blast
qed

lemma escapedText_Cons_amp:
  "escapedText (CHR ''&'' # cs) \<longleftrightarrow> startsEntity cs \<and> escapedText cs"
  by simp

lemma escapedText_Cons_other:
  "c \<noteq> CHR ''&'' \<Longrightarrow>
   escapedText (c # cs) \<longleftrightarrow>
     c \<noteq> CHR ''<'' \<and> c \<noteq> CHR ''>'' \<and> c \<noteq> CHR 0x22 \<and> c \<noteq> CHR 0x27 \<and> escapedText cs"
  by simp

lemma escapedText_tail: "escapedText (c # cs) \<Longrightarrow> escapedText cs"
  by (cases "c = CHR ''&''") simp_all

lemma escapedText_append_right: "escapedText (xs @ ys) \<Longrightarrow> escapedText ys"
proof (induction xs)
  case Nil
  then show ?case by simp
next
  case (Cons c xs)
  from Cons.prems have "escapedText (xs @ ys)"
    using escapedText_tail [of c "xs @ ys"] by simp
  then show ?case by (rule Cons.IH)
qed

lemma escapedText_dropWhile: "escapedText xs \<Longrightarrow> escapedText (dropWhile P xs)"
  using escapedText_append_right [of "takeWhile P xs" "dropWhile P xs"] by simp

lemma escapedText_ConsI:
  "c \<noteq> CHR ''&'' \<Longrightarrow> c \<noteq> CHR ''<'' \<Longrightarrow> c \<noteq> CHR ''>'' \<Longrightarrow> c \<noteq> CHR 0x22 \<Longrightarrow> c \<noteq> CHR 0x27 \<Longrightarrow>
   escapedText cs \<Longrightarrow> escapedText (c # cs)"
  by simp

lemma escapedText_ConsD:
  "escapedText (c # cs) \<Longrightarrow> c \<noteq> CHR ''&'' \<Longrightarrow>
   c \<noteq> CHR ''<'' \<and> c \<noteq> CHR ''>'' \<and> c \<noteq> CHR 0x22 \<and> c \<noteq> CHR 0x27"
  by simp

lemma escapedText_ampI:
  "startsEntity cs \<Longrightarrow> escapedText cs \<Longrightarrow> escapedText (CHR ''&'' # cs)"
  by simp

lemma escapedText_ampD: "escapedText (CHR ''&'' # cs) \<Longrightarrow> startsEntity cs"
  by simp

lemma removeLineBreaks_Cons_cases:
  "removeLineBreaks (c # cs) = c # removeLineBreaks cs
   \<or> removeLineBreaks (c # cs) = removeLineBreaks cs"
  by (simp add: removeLineBreaks_def)

lemma removeLineBreaks_amp:
  "removeLineBreaks (CHR ''&'' # cs) = CHR ''&'' # removeLineBreaks cs"
  by (simp add: removeLineBreaks_def)

lemma escapedText_removeLineBreaks:
  "escapedText t \<Longrightarrow> escapedText (removeLineBreaks t)"
proof (induction t)
  case Nil
  show ?case by (simp add: removeLineBreaks_def)
next
  case (Cons c cs)
  have "escapedText cs" using Cons.prems by (rule escapedText_tail)
  then have tail: "escapedText (removeLineBreaks cs)" by (rule Cons.IH)
  show ?case
  proof (cases "c = CHR ''&''")
    case True
    from Cons.prems have "startsEntity cs"
      unfolding True by (rule escapedText_ampD)
    then have "startsEntity (removeLineBreaks cs)" by (rule startsEntity_removeLineBreaks)
    then have "escapedText (CHR ''&'' # removeLineBreaks cs)"
      using tail by (rule escapedText_ampI)
    then show ?thesis unfolding True removeLineBreaks_amp .
  next
    case False
    from escapedText_ConsD [OF Cons.prems False]
    have c: "c \<noteq> CHR ''<''" "c \<noteq> CHR ''>''" "c \<noteq> CHR 0x22" "c \<noteq> CHR 0x27"
      by blast+
    from removeLineBreaks_Cons_cases [of c cs] show ?thesis
    proof
      assume eq: "removeLineBreaks (c # cs) = c # removeLineBreaks cs"
      show ?thesis unfolding eq by (rule escapedText_ConsI [OF False c tail])
    next
      assume eq: "removeLineBreaks (c # cs) = removeLineBreaks cs"
      show ?thesis unfolding eq by (rule tail)
    qed
  qed
qed

lemma escapedText_collapseSpaces:
  "escapedText t \<Longrightarrow> escapedText (collapseSpaces t)"
proof (induction t rule: collapseSpaces.induct)
  case 1
  show ?case by simp
next
  case (2 c cs)
  from "2.prems" have cs: "escapedText cs" by (rule escapedText_tail)
  show ?case
  proof (cases "is_space c \<and> starts_with is_space cs")
    case True
    from cs have "escapedText (dropWhile is_space cs)" by (rule escapedText_dropWhile)
    with "2.IH"(1) True have "escapedText (collapseSpaces (dropWhile is_space cs))" by blast
    then have "escapedText (CHR '' '' # collapseSpaces (dropWhile is_space cs))"
      by (intro escapedText_ConsI) simp_all
    moreover have "collapseSpaces (c # cs) = CHR '' '' # collapseSpaces (dropWhile is_space cs)"
      using True by simp
    ultimately show ?thesis by (simp only:)
  next
    case False
    with "2.IH"(2) cs have tail: "escapedText (collapseSpaces cs)" by blast
    have eq: "collapseSpaces (c # cs) = c # collapseSpaces cs"
      using False by auto
    show ?thesis
    proof (cases "c = CHR ''&''")
      case True
      from "2.prems" have "startsEntity cs"
        unfolding True by (rule escapedText_ampD)
      then have "startsEntity (collapseSpaces cs)" by (rule startsEntity_collapseSpaces)
      then have "escapedText (CHR ''&'' # collapseSpaces cs)"
        using tail by (rule escapedText_ampI)
      then show ?thesis using eq True by (simp only:)
    next
      case amp: False
      from escapedText_ConsD [OF "2.prems" amp]
      have c: "c \<noteq> CHR ''<''" "c \<noteq> CHR ''>''" "c \<noteq> CHR 0x22" "c \<noteq> CHR 0x27"
        by blast+
      show ?thesis unfolding eq by (rule escapedText_ConsI [OF amp c tail])
    qed
  qed
qed

lemma escapedText_normText: "escapedText t \<Longrightarrow> escapedText (normText t)"
proof -
  assume "escapedText t"
  then have "escapedText (collapseSpaces (removeLineBreaks t))"
    by (intro escapedText_collapseSpaces escapedText_removeLineBreaks)
  then show ?thesis
    by (simp add: normText_def Let_def)
qed

lemma escapedText_plain: "\<forall>c\<in>set t. \<not> reserved c \<Longrightarrow> escapedText t"
proof (induction t)
  case Nil
  show ?case by simp
next
  case (Cons c cs)
  then have "\<not> reserved c" and tail: "escapedText cs" by simp_all
  then have "c \<noteq> CHR ''&''" "c \<noteq> CHR ''<''" "c \<noteq> CHR ''>''" "c \<noteq> CHR 0x22" "c \<noteq> CHR 0x27"
    by (simp_all add: reserved_def)
  then show ?case using tail by (rule escapedText_ConsI)
qed

lemma escapedText_append:
  "escapedText xs \<Longrightarrow> escapedText ys \<Longrightarrow> escapedText (xs @ ys)"
proof (induction xs)
  case Nil
  then show ?case by simp
next
  case (Cons c xs)
  have "escapedText xs" using Cons.prems(1) by (rule escapedText_tail)
  then have tail: "escapedText (xs @ ys)" using Cons.prems(2) by (rule Cons.IH)
  show ?case
  proof (cases "c = CHR ''&''")
    case True
    from Cons.prems(1) have "startsEntity xs" unfolding True by (rule escapedText_ampD)
    then have "startsEntity (xs @ ys)" by (rule startsEntity_append)
    then have "escapedText (CHR ''&'' # (xs @ ys))" using tail by (rule escapedText_ampI)
    then show ?thesis using True by (simp only: append_Cons)
  next
    case False
    from escapedText_ConsD [OF Cons.prems(1) False]
    have c: "c \<noteq> CHR ''<''" "c \<noteq> CHR ''>''" "c \<noteq> CHR 0x22" "c \<noteq> CHR 0x27"
      by blast+
    have "escapedText (c # (xs @ ys))" by (rule escapedText_ConsI [OF False c tail])
    then show ?thesis by (simp only: append_Cons)
  qed
qed

lemma startsEntity_literals:
  "startsEntity (''amp;'' @ r)" "startsEntity (''lt;'' @ r)" "startsEntity (''gt;'' @ r)"
  "startsEntity (''quot;'' @ r)" "startsEntity (''apos;'' @ r)"
  by (simp_all add: startsEntity_def entities_def)

lemma escapedText_escapeChar: "escapedText (escapeChar c)"
proof -
  have "escapedText ''&amp;''" "escapedText ''&lt;''" "escapedText ''&gt;''"
    "escapedText ''&quot;''" "escapedText ''&apos;''"
    using startsEntity_literals [of "[]"] by simp_all
  moreover have "escapedText [c]"
    if "c \<noteq> CHR ''&''" "c \<noteq> CHR ''<''" "c \<noteq> CHR ''>''" "c \<noteq> CHR 0x22" "c \<noteq> CHR 0x27"
    using that by simp
  ultimately show ?thesis
    unfolding escapeChar_def by (simp only: if_split) blast
qed

lemma escapedText_escapeXml: "escapedText (escapeXml str)"
  unfolding escapeXml_map
proof (induction str)
  case Nil
  show ?case by simp
next
  case (Cons c cs)
  have "escapedText (escapeChar c @ concat (map escapeChar cs))"
    using escapedText_escapeChar Cons by (rule escapedText_append)
  then show ?case by simp
qed

lemma numberChars_not_reserved: "c \<in> numberChars \<Longrightarrow> \<not> reserved c"
  using numberChars_plain [of c] by (simp add: reserved_def)

lemma escapedText_number: "escapedText (numberToString x)"
proof (rule escapedText_plain, rule ballI)
  fix c assume "c \<in> set (numberToString x)"
  with numberToString_chars [of x] have "c \<in> numberChars" by blast
  then show "\<not> reserved c" by (rule numberChars_not_reserved)
qed

lemma escapedText_boolean: "escapedText (booleanToString b)"
  by (cases b) (simp_all add: booleanToString_def)

lemma escapedText_spaces: "list_all is_space t \<Longrightarrow> escapedText t"
proof (rule escapedText_plain, rule ballI)
  fix c assume "list_all is_space t" "c \<in> set t"
  then have "is_space c" by (simp add: list_all_iff)
  then show "\<not> reserved c" by (auto simp: is_space_def reserved_def)
qed

lemma tokenEscaped_pair [simp]:
  "tokenEscaped (t, n) \<longleftrightarrow> escapedText t \<and> list_all tagChar n"
  by (simp add: tokenEscaped_def)

lemma tagChar_not_gt: "tagChar c \<Longrightarrow> c \<noteq> CHR ''>''"
  by (auto simp: tagChar_def)

lemma digits_tagChar: "list_all tagChar (digits n)"
proof -
  have "set ''0123456789'' \<subseteq> Collect tagChar"
    by (simp add: tagChar_def)
  with digits_chars [of n] show ?thesis
    by (auto simp: list_all_iff)
qed

lemma modeKey_tagChar: "list_all tagChar (modeKey m)"
  by (cases m) (simp_all add: tagChar_def)

lemma thrusterTokens_escaped:
  "escapedText lead \<Longrightarrow> list_all tokenEscaped (thrusterTokens lead n ts)"
proof (induction ts arbitrary: lead n)
  case Nil
  have "escapedText ''\<newline>          ''" by simp
  with Nil have "escapedText (lead @ ''\<newline>          '')" by (rule escapedText_append)
  then show ?case by (simp add: tagChar_def)
next
  case (Cons t ts)
  have "escapedText (if ts = [] then [] else ''\<newline>'')" by simp
  then have rest: "list_all tokenEscaped
      (thrusterTokens (if ts = [] then [] else ''\<newline>'') (Suc n) ts)"
    by (rule Cons.IH)
  have "escapedText ''        ''" by simp
  with Cons.prems have "escapedText (lead @ ''        '')" by (rule escapedText_append)
  moreover have "list_all tagChar ''thrusters''" "list_all tagChar ''/thrusters''"
    by (simp_all add: tagChar_def)
  ultimately show ?case
    using rest by (simp add: escapedText_escapeXml digits_tagChar)
qed

lemma waypointTokens_escaped:
  "escapedText lead \<Longrightarrow> list_all tokenEscaped (waypointTokens lead wps)"
proof (induction wps arbitrary: lead)
  case Nil
  have "escapedText ''\<newline>          ''" by simp
  with Nil have "escapedText (lead @ ''\<newline>          '')" by (rule escapedText_append)
  then show ?case by (simp add: tagChar_def)
next
  case (Cons wp wps)
  have rest: "list_all tokenEscaped (waypointTokens [] wps)"
    by (rule Cons.IH) simp
  have "escapedText ('' '' @ numberToString (snd wp))"
    by (rule escapedText_append) (simp_all add: escapedText_number)
  with escapedText_number
  have "escapedText (numberToString (fst wp) @ '' '' @ numberToString (snd wp))"
    by (rule escapedText_append)
  moreover have "list_all tagChar ''waypoint''" "list_all tagChar ''/waypoint''"
    by (simp_all add: tagChar_def)
  ultimately show ?case
    using rest Cons.prems by simp
qed

lemma partTokens_escaped: "list_all tokenEscaped (partTokens st m)"
proof -
  have "escapedText ''\<newline>    ''" by simp
  then have "list_all tokenEscaped (thrusterTokens ''\<newline>    '' 0 (thrusters (physicsConfig st m)))"
    by (rule thrusterTokens_escaped)
  moreover have "list_all tagChar ''ConnectionType''" "list_all tagChar ''/ConnectionType''"
    "list_all tagChar ''uri''" "list_all tagChar ''/uri''" "list_all tagChar ''thrusters''"
    "tagChar CHR ''/''"
    by (simp_all add: tagChar_def)
  ultimately show ?thesis
    by (simp add: partTokens_def escapedText_escapeXml modeKey_tagChar)
qed

lemma partsTokens_escaped: "list_all tokenEscaped (concat (map (partTokens st) ms))"
  by (induction ms) (simp_all add: partTokens_escaped)

lemma renderTokens_escaped: "list_all tokenEscaped (renderTokens st)"
proof -
  have "list_all tagChar ''render_interface''" "list_all tagChar ''/render_interface''"
    "list_all tagChar ''publish_render''" "list_all tagChar ''/publish_render''"
    "list_all tagChar ''renderer_type_name''" "list_all tagChar ''/renderer_type_name''"
    by (simp_all add: tagChar_def)
  then show ?thesis
    by (simp add: renderTokens_def escapedText_escapeXml escapedText_boolean)
qed

lemma physicsTokens_escaped: "list_all tokenEscaped (physicsTokens st)"
proof -
  have "list_all tagChar ''physics_engine_interface''"
    "list_all tagChar ''/physics_engine_interface''"
    "list_all tagChar ''init_state''" "list_all tagChar ''/init_state''"
    by (simp_all add: tagChar_def)
  then show ?thesis
    by (simp add: physicsTokens_def escapedText_escapeXml partsTokens_escaped)
qed

lemma limitTokens_escaped: "list_all tokenEscaped (limitTokens w)"
proof -
  have "list_all tagChar ''loop''" "list_all tagChar ''/loop''"
    "list_all tagChar ''linear_acceleration_limit''"
    "list_all tagChar ''/linear_acceleration_limit''"
    "list_all tagChar ''angular_acceleration_limit''"
    "list_all tagChar ''/angular_acceleration_limit''"
    "list_all tagChar ''angular_velocity_limit''"
    "list_all tagChar ''/angular_velocity_limit''"
    by (simp_all add: tagChar_def)
  then show ?thesis
    by (simp add: limitTokens_def escapedText_number escapedText_boolean)
qed

lemma followerTokens_escaped: "list_all tokenEscaped (followerTokens w)"
proof -
  have "escapedText ''\<newline>            ''" by simp
  then have "list_all tokenEscaped (waypointTokens ''\<newline>            '' (waypoints w))"
    by (rule waypointTokens_escaped)
  moreover have "list_all tagChar ''follower''" "list_all tagChar ''/follower''"
    "list_all tagChar ''/waypoint_follower''" "list_all tagChar ''waypoints''"
    "list_all tagChar ''line''" "list_all tagChar ''/line''"
    "list_all tagChar ''direction''" "list_all tagChar ''/direction''"
    "list_all tagChar ''length''" "list_all tagChar ''/length''"
    "list_all tagChar ''circle''" "list_all tagChar ''/circle''"
    "list_all tagChar ''radius''" "list_all tagChar ''/radius''"
    by (simp_all add: tagChar_def)
  ultimately show ?thesis
    by (simp add: followerTokens_def limitTokens_escaped escapedText_number)
qed

lemma waypointFollowerTokens_escaped: "list_all tokenEscaped (waypointFollowerTokens st)"
proof -
  have "list_all tagChar ''waypoint_follower''"
    by (simp add: tagChar_def)
  then show ?thesis
    by (simp add: waypointFollowerTokens_def followerTokens_escaped)
qed

lemma rawTokens_escaped: "list_all tokenEscaped (rawTokens st)"
proof -
  have "list_all tagChar ''/lotus_param''"
    by (simp add: tagChar_def)
  then show ?thesis
    by (simp add: rawTokens_def renderTokens_escaped physicsTokens_escaped
        waypointFollowerTokens_escaped)
qed

lemma outTokens_escaped: "list_all tokenEscaped (outTokens st)"
proof -
  have "tokenEscaped (normToken p)" if "tokenEscaped p" for p
    using that by (cases p) (simp add: escapedText_normText)
  with rawTokens_escaped [of st] show ?thesis
    by (simp add: outTokens_def list_all_iff)
qed

lemma scanDocument_text:
  "escapedText t \<Longrightarrow> scanDocument False (t @ ys) = scanDocument False ys"
proof (induction t)
  case Nil
  show ?case by simp
next
  case (Cons c cs)
  have "escapedText cs" using Cons.prems by (rule escapedText_tail)
  then have tail: "scanDocument False (cs @ ys) = scanDocument False ys" by (rule Cons.IH)
  show ?case
  proof (cases "c = CHR ''&''")
    case True
    from Cons.prems have "startsEntity cs" unfolding True by (rule escapedText_ampD)
    then have "startsEntity (cs @ ys)" by (rule startsEntity_append)
    with True tail show ?thesis by simp
  next
    case False
    from escapedText_ConsD [OF Cons.prems False] False tail show ?thesis by simp
  qed
qed

lemma scanDocument_name:
  "list_all tagChar n \<Longrightarrow> scanDocument True (n @ ys) = scanDocument True ys"
  by (induction n) (simp_all add: tagChar_not_gt)

lemma scanDocument_pieces:
  "list_all tokenEscaped toks \<Longrightarrow> scanDocument True (concat (map piece toks) @ ''>'')"
proof (induction toks)
  case Nil
  show ?case by simp
next
  case (Cons p toks)
  obtain t n where p: "p = (t, n)" by (cases p)
  from Cons.prems have t: "escapedText t" and n: "list_all tagChar n"
    and rest: "list_all tokenEscaped toks"
    by (simp_all add: p)
  let ?rest = "concat (map piece toks) @ ''>''"
  have "scanDocument True (concat (map piece (p # toks)) @ ''>'')
      = scanDocument False (t @ CHR ''<'' # n @ ?rest)"
    by (simp add: p)
  also have "\<dots> = scanDocument False (CHR ''<'' # n @ ?rest)"
    by (rule scanDocument_text [OF t])
  also have "\<dots> = scanDocument True (n @ ?rest)"
    by simp
  also have "\<dots> = scanDocument True ?rest"
    by (rule scanDocument_name [OF n])
  finally show ?case
    using Cons.IH [OF rest] by simp
qed

lemma wellEscaped_document: "wellEscaped (generateLotusParamXML st)"
proof -
  have "list_all tagChar ''lotus_param''"
    by (simp add: tagChar_def)
  then have "scanDocument True (''lotus_param'' @ concat (map piece (outTokens st)) @ ''>'')
      = scanDocument True (concat (map piece (outTokens st)) @ ''>'')"
    by (rule scanDocument_name)
  with scanDocument_pieces [OF outTokens_escaped, of st] show ?thesis
    by (simp add: wellEscaped_def generateLotusParamXML_tokens)
qed

lemma escapeXml_number: "escapeXml (numberToString x) = numberToString x"
proof (rule escapeXml_plain, rule ballI)
  fix c assume "c \<in> set (numberToString x)"
  with numberToString_chars [of x] have "c \<in> numberChars" by blast
  then show "\<not> reserved c" by (rule numberChars_not_reserved)
qed

lemma escapeXml_boolean: "escapeXml (booleanToString b) = booleanToString b"
  by (rule escapeXml_plain) (cases b; simp add: booleanToString_def reserved_def)

subsection \<open>Escaping and whitespace normalization commute\<close>

lemma escapeChar_space: "is_space c \<Longrightarrow> escapeChar c = [c]"
  by (auto simp: escapeChar_def is_space_def)

lemma escapeChar_nonspace: "\<not> is_space c \<Longrightarrow> \<forall>x\<in>set (escapeChar c). \<not> is_space x"
  by (auto simp: escapeChar_def is_space_def)

lemma escapeChar_Cons: "\<exists>d ds. escapeChar c = d # ds \<and> (is_space d \<longleftrightarrow> is_space c)"
  by (auto simp: escapeChar_def is_space_def)

lemma removeLineBreaks_escape:
  "removeLineBreaks (concat (map escapeChar s)) = concat (map escapeChar (removeLineBreaks s))"
proof (induction s)
  case Nil
  show ?case by (simp add: removeLineBreaks_def)
next
  case (Cons c s)
  have "removeLineBreaks (escapeChar c) = concat (map escapeChar (removeLineBreaks [c]))"
    by (simp add: removeLineBreaks_def escapeChar_def)
  moreover have "removeLineBreaks (c # s) = removeLineBreaks [c] @ removeLineBreaks s"
    by (simp add: removeLineBreaks_def)
  ultimately show ?case
    using Cons.IH by simp
qed

lemma starts_with_escape:
  "starts_with is_space (concat (map escapeChar cs)) = starts_with is_space cs"
proof (cases cs)
  case Nil
  then show ?thesis by simp
next
  case (Cons c cs')
  obtain d ds where "escapeChar c = d # ds" "is_space d \<longleftrightarrow> is_space c"
    using escapeChar_Cons by blast
  with Cons show ?thesis by simp
qed

lemma dropWhile_escape:
  "dropWhile is_space (concat (map escapeChar cs))
   = concat (map escapeChar (dropWhile is_space cs))"
proof (induction cs)
  case Nil
  show ?case by simp
next
  case (Cons c cs)
  show ?case
  proof (cases "is_space c")
    case True
    then show ?thesis using Cons.IH by (simp add: escapeChar_space)
  next
    case False
    obtain d ds where d: "escapeChar c = d # ds" "is_space d \<longleftrightarrow> is_space c"
      using escapeChar_Cons by blast
    with False show ?thesis by simp
  qed
qed

lemma collapseSpaces_escape:
  "collapseSpaces (concat (map escapeChar s)) = concat (map escapeChar (collapseSpaces s))"
proof (induction s rule: collapseSpaces.induct)
  case 1
  show ?case by simp
next
  case (2 c cs)
  show ?case
  proof (cases "is_space c")
    case True
    have sp: "escapeChar CHR '' '' = '' ''" by (simp add: escapeChar_def)
    show ?thesis
    proof (cases "starts_with is_space cs")
      case run: True
      with True 2 show ?thesis
        by (simp add: escapeChar_space starts_with_escape dropWhile_escape sp)
    next
      case False
      with True 2 show ?thesis
        by (simp add: escapeChar_space starts_with_escape)
    qed
  next
    case False
    have "collapseSpaces (escapeChar c @ concat (map escapeChar cs))
        = escapeChar c @ collapseSpaces (concat (map escapeChar cs))"
      by (rule collapseSpaces_keeps) (rule escapeChar_nonspace [OF False])
    with False 2 show ?thesis by simp
  qed
qed

lemma list_all_space_escape:
  "list_all is_space (concat (map escapeChar u)) = list_all is_space u"
proof (induction u)
  case Nil
  show ?case by simp
next
  case (Cons c u)
  show ?case
  proof (cases "is_space c")
    case True
    then show ?thesis using Cons.IH by (simp add: escapeChar_space)
  next
    case False
    obtain d ds where d: "escapeChar c = d # ds" "is_space d \<longleftrightarrow> is_space c"
      using escapeChar_Cons by blast
    with False show ?thesis by simp
  qed
qed

lemma normText_escapeXml: "normText (escapeXml s) = fieldText s"
  by (simp add: normText_def fieldText_def escapeXml_map removeLineBreaks_escape
      collapseSpaces_escape list_all_space_escape Let_def)

subsection \<open>Whitespace normalization keeps the reserved characters\<close>

lemma reserved_not_space: "reserved c \<Longrightarrow> \<not> is_space c"
  by (auto simp: reserved_def is_space_def)

lemma filter_reserved_removeLineBreaks:
  "filter reserved (removeLineBreaks t) = filter reserved t"
proof (induction t)
  case Nil
  show ?case by (simp add: removeLineBreaks_def)
next
  case (Cons c t)
  have "removeLineBreaks (c # t) = removeLineBreaks [c] @ removeLineBreaks t"
    by (simp add: removeLineBreaks_def)
  moreover have "filter reserved (removeLineBreaks [c]) = filter reserved [c]"
    by (simp add: removeLineBreaks_def reserved_def)
  ultimately show ?case using Cons.IH by simp
qed

lemma filter_reserved_spaces: "list_all is_space t \<Longrightarrow> filter reserved t = []"
proof (induction t)
  case Nil
  show ?case by simp
next
  case (Cons c t)
  then have "is_space c" and "filter reserved t = []" by simp_all
  moreover from \<open>is_space c\<close> have "\<not> reserved c"
    using reserved_not_space by blast
  ultimately show ?case by simp
qed

lemma filter_reserved_dropWhile:
  "filter reserved (dropWhile is_space t) = filter reserved t"
proof (induction t)
  case Nil
  show ?case by simp
next
  case (Cons c t)
  show ?case
  proof (cases "is_space c")
    case True
    then have "\<not> reserved c" using reserved_not_space by blast
    with True Cons.IH show ?thesis by simp
  next
    case False
    then show ?thesis by simp
  qed
qed

lemma filter_reserved_collapseSpaces:
  "filter reserved (collapseSpaces t) = filter reserved t"
proof (induction t rule: collapseSpaces.induct)
  case 1
  show ?case by simp
next
  case (2 c cs)
  have sp: "\<not> reserved CHR '' ''" by (simp add: reserved_def)
  show ?case
  proof (cases "is_space c \<and> starts_with is_space cs")
    case True
    then have c: "\<not> reserved c" using reserved_not_space by blast
    from True have "filter reserved (collapseSpaces (dropWhile is_space cs))
        = filter reserved (dropWhile is_space cs)"
      by (rule "2.IH"(1))
    also have "\<dots> = filter reserved cs"
      by (rule filter_reserved_dropWhile)
    finally show ?thesis
      using True c sp by simp
  next
    case False
    then have "filter reserved (collapseSpaces cs) = filter reserved cs"
      by (rule "2.IH"(2))
    moreover from False have "collapseSpaces (c # cs) = c # collapseSpaces cs"
      by auto
    ultimately show ?thesis by simp
  qed
qed

lemma filter_reserved_normText: "filter reserved (normText t) = filter reserved t"
proof -
  have eq: "filter reserved (collapseSpaces (removeLineBreaks t)) = filter reserved t"
    by (simp only: filter_reserved_collapseSpaces filter_reserved_removeLineBreaks)
  show ?thesis
  proof (cases "list_all is_space (collapseSpaces (removeLineBreaks t))")
    case True
    then have "filter reserved (collapseSpaces (removeLineBreaks t)) = []"
      by (rule filter_reserved_spaces)
    with eq True show ?thesis by (simp add: normText_def)
  next
    case False
    with eq show ?thesis by (simp add: normText_def)
  qed
qed

subsection \<open>Numbers and booleans pass the normalization unchanged\<close>

lemma numberToString_no_space: "\<forall>c\<in>set (numberToString x). \<not> is_space c"
  using numberToString_chars [of x] numberChars_plain by blast

lemma normText_number: "normText (numberToString x) = numberToString x"
  by (rule normText_no_space) (rule numberToString_no_space)

lemma normText_boolean: "normText (booleanToString b) = booleanToString b"
  by (rule normText_no_space) (cases b; simp add: booleanToString_def is_space_def)

lemma normText_waypoint:
  "normText (numberToString a @ '' '' @ numberToString b)
   = numberToString a @ '' '' @ numberToString b"
proof -
  let ?A = "numberToString a" and ?B = "numberToString b"
  have A: "\<forall>c\<in>set ?A. \<not> is_space c" and B: "\<forall>c\<in>set ?B. \<not> is_space c"
    by (rule numberToString_no_space)+
  have "removeLineBreaks '' '' = '' ''"
    by (simp add: removeLineBreaks_def)
  then have "removeLineBreaks (?A @ '' '' @ ?B) = ?A @ '' '' @ ?B"
    by (simp only: removeLineBreaks_append removeLineBreaks_keeps [OF A]
        removeLineBreaks_keeps [OF B])
  moreover have "\<not> starts_with is_space ?B"
    using B starts_with_mem by blast
  then have "collapseSpaces (?A @ '' '' @ ?B) = ?A @ '' '' @ ?B"
    using A B by (simp add: collapseSpaces_keeps no_space_collapse)
  moreover have "\<not> list_all is_space (?A @ '' '' @ ?B)"
    using A numberToString_nonempty [of a] by (cases ?A) auto
  ultimately show ?thesis by (simp add: normText_def)
qed

subsection \<open>The sections of the serialized document\<close>

lemma thrusterField_pair:
  "thrusterField (idx, thruster) =
     ''<thrusters'' @ digits (idx + 1) @ ''>'' @ fieldText thruster
     @ ''</thrusters'' @ digits (idx + 1) @ ''>''"
  by (simp add: thrusterField_def)

lemma thrusterElement_field: "thrusterElement = thrusterField"
  by (rule ext) (simp add: thrusterElement_def thrusterField_def normText_escapeXml
      split: prod.splits)

lemma render_pieces:
  "concat (map piece (map normToken (renderTokens st))) @ CHR ''>'' # r
   = CHR ''>'' # renderElement st @ r"
  by (simp add: renderTokens_def renderElement_def normText_spaces normText_boolean
      normText_escapeXml)

lemma mode_pieces:
  "concat (map piece (map normToken (partTokens st m))) @ CHR ''>'' # r
   = CHR ''>'' # modeElement st m @ r"
  unfolding part_pieces
  by (simp add: modeElement_def Let_def normText_escapeXml thrusterElement_field)

lemma modes_pieces:
  "concat (map piece (map normToken (concat (map (partTokens st) ms)))) @ CHR ''>'' # r
   = CHR ''>'' # concat (map (modeElement st) ms) @ r"
proof (induction ms)
  case Nil
  show ?case by simp
next
  case (Cons m ms)
  have "concat (map piece (map normToken (concat (map (partTokens st) (m # ms))))) @ CHR ''>'' # r
      = concat (map piece (map normToken (partTokens st m)))
        @ (concat (map piece (map normToken (concat (map (partTokens st) ms)))) @ CHR ''>'' # r)"
    by simp
  also have "\<dots> = concat (map piece (map normToken (partTokens st m)))
        @ CHR ''>'' # (concat (map (modeElement st) ms) @ r)"
    by (simp only: Cons.IH)
  also have "\<dots> = CHR ''>'' # modeElement st m @ (concat (map (modeElement st) ms) @ r)"
    by (rule mode_pieces)
  finally show ?case by simp
qed

lemma physics_pieces:
  "concat (map piece (map normToken (physicsTokens st))) @ CHR ''>'' # r
   = CHR ''>'' # physicsElement st @ r"
proof (cases "physicsEnabled st")
  case False
  then show ?thesis by (simp add: physicsTokens_def physicsElement_def)
next
  case True
  let ?ms = "filter (physicsModes st) physicsModeKeys"
  let ?tail = "''<init_state>'' @ fieldText (initState st)
      @ ''</init_state></physics_engine_interface>'' @ r"
  have "concat (map piece (map normToken (physicsTokens st))) @ CHR ''>'' # r
      = ''><physics_engine_interface''
        @ (concat (map piece (map normToken (concat (map (partTokens st) ?ms))))
           @ CHR ''>'' # ?tail)"
    using True by (simp add: physicsTokens_def normText_spaces normText_escapeXml)
  also have "\<dots> = ''><physics_engine_interface''
        @ (CHR ''>'' # concat (map (modeElement st) ?ms) @ ?tail)"
    by (simp only: modes_pieces)
  finally show ?thesis
    using True by (simp add: physicsElement_def)
qed

lemma limit_pieces:
  "concat (map piece (map normToken (limitTokens w))) @ CHR ''>'' # r
   = CHR ''>'' # limitElements w @ r"
  by (simp add: limitTokens_def limitElements_def normText_spaces normText_boolean
      normText_number)

lemma waypoints_pieces:
  "list_all is_space lead \<Longrightarrow>
   concat (map piece (map normToken (waypointTokens lead wps)))
   = CHR ''>'' # concat (map waypointXml wps) @ ''</waypoints''"
proof (induction wps arbitrary: lead)
  case Nil
  then show ?case by (simp add: normText_spaces)
next
  case (Cons wp wps)
  have "concat (map piece (map normToken (waypointTokens [] wps)))
      = CHR ''>'' # concat (map waypointXml wps) @ ''</waypoints''"
    by (rule Cons.IH) simp
  with Cons.prems show ?case
    using normText_waypoint [of "fst wp" "snd wp"]
    by (cases wp) (simp add: normText_spaces waypointXml_pair)
qed

lemma follower_pieces:
  "concat (map piece (map normToken (followerTokens w))) @ CHR ''>'' # r
   = CHR ''>'' # followerElement w @ ''</waypoint_follower>'' @ r"
proof -
  have wps: "concat (map piece (map normToken (waypointTokens ''\<newline>            '' (waypoints w))))
      = CHR ''>'' # concat (map waypointXml (waypoints w)) @ ''</waypoints''"
    by (rule waypoints_pieces) simp
  have lim: "\<And>r. concat (map piece (map normToken (limitTokens w))) @ CHR ''>'' # r
      = CHR ''>'' # limitElements w @ r"
    by (rule limit_pieces)
  consider (wp) "mode w = ''waypoints'' \<and> waypoints w \<noteq> []"
    | (line) "\<not> (mode w = ''waypoints'' \<and> waypoints w \<noteq> [])" "mode w = ''line''"
    | (circle) "\<not> (mode w = ''waypoints'' \<and> waypoints w \<noteq> [])" "mode w \<noteq> ''line''"
        "mode w = ''circle''"
    | (none) "\<not> (mode w = ''waypoints'' \<and> waypoints w \<noteq> [])" "mode w \<noteq> ''line''"
        "mode w \<noteq> ''circle''"
    by blast
  then show ?thesis
  proof cases
    case wp
    have "concat (map piece (map normToken (followerTokens w))) @ CHR ''>'' # r
        = ''><follower'' @ (concat (map piece (map normToken (limitTokens w)))
            @ CHR ''>'' # (''<waypoints'' @ concat (map piece (map normToken
                (waypointTokens ''\<newline>            '' (waypoints w))))
              @ ''></follower></waypoint_follower>'' @ r))"
      using wp by (simp add: followerTokens_def normText_spaces)
    also have "\<dots> = ''><follower'' @ (CHR ''>'' # limitElements w
            @ (''<waypoints'' @ (CHR ''>'' # concat (map waypointXml (waypoints w))
                @ ''</waypoints'')
              @ ''></follower></waypoint_follower>'' @ r))"
      by (simp only: lim wps)
    finally show ?thesis
      using wp by (simp add: followerElement_def)
  next
    case line
    have "concat (map piece (map normToken (followerTokens w))) @ CHR ''>'' # r
        = ''><follower'' @ (concat (map piece (map normToken (limitTokens w)))
            @ CHR ''>'' # (''<line><direction>'' @ numberToString (line_direction w)
              @ ''</direction><length>'' @ numberToString (line_length w)
              @ ''</length></line></follower></waypoint_follower>'' @ r))"
      using line by (simp add: followerTokens_def normText_spaces normText_number)
    also have "\<dots> = ''><follower'' @ (CHR ''>'' # limitElements w
            @ (''<line><direction>'' @ numberToString (line_direction w)
              @ ''</direction><length>'' @ numberToString (line_length w)
              @ ''</length></line></follower></waypoint_follower>'' @ r))"
      by (simp only: lim)
    finally show ?thesis
      using line by (simp add: followerElement_def)
  next
    case circle
    have "concat (map piece (map normToken (followerTokens w))) @ CHR ''>'' # r
        = ''><follower'' @ (concat (map piece (map normToken (limitTokens w)))
            @ CHR ''>'' # (''<circle><radius>'' @ numberToString (circle_radius w)
              @ ''</radius></circle></follower></waypoint_follower>'' @ r))"
      using circle by (simp add: followerTokens_def normText_spaces normText_number)
    also have "\<dots> = ''><follower'' @ (CHR ''>'' # limitElements w
            @ (''<circle><radius>'' @ numberToString (circle_radius w)
              @ ''</radius></circle></follower></waypoint_follower>'' @ r))"
      by (simp only: lim)
    finally show ?thesis
      using circle by (simp add: followerElement_def)
  next
    case none
    then show ?thesis
      by (simp add: followerTokens_def followerElement_def normText_spaces)
  qed
qed

lemma waypointFollower_pieces:
  "concat (map piece (map normToken (waypointFollowerTokens st))) @ CHR ''>'' # r
   = CHR ''>'' # waypointFollowerElement st @ r"
proof (cases "enabled (waypointFollower st)")
  case False
  then show ?thesis by (simp add: waypointFollowerTokens_def waypointFollowerElement_def)
next
  case True
  have "concat (map piece (map normToken (waypointFollowerTokens st))) @ CHR ''>'' # r
      = ''><waypoint_follower''
        @ (concat (map piece (map normToken (followerTokens (waypointFollower st))))
           @ CHR ''>'' # r)"
    using True by (simp add: waypointFollowerTokens_def normText_spaces)
  also have "\<dots> = ''><waypoint_follower''
        @ (CHR ''>'' # followerElement (waypointFollower st) @ ''</waypoint_follower>'' @ r)"
    by (simp only: follower_pieces)
  finally show ?thesis
    using True by (simp add: waypointFollowerElement_def)
qed

lemma generateLotusParamXML_elements: "generateLotusParamXML st = parameterDocument st"
proof -
  have "generateLotusParamXML st
      = ''<lotus_param'' @ (concat (map piece (map normToken (renderTokens st)))
          @ (concat (map piece (map normToken (physicsTokens st)))
            @ (concat (map piece (map normToken (waypointFollowerTokens st)))
              @ CHR ''>'' # ''</lotus_param>'')))"
    by (simp add: generateLotusParamXML_tokens outTokens_def rawTokens_def)
  also have "\<dots> = ''<lotus_param'' @ (CHR ''>'' # renderElement st @ physicsElement st
          @ waypointFollowerElement st @ ''</lotus_param>'')"
    by (simp only: waypointFollower_pieces physics_pieces render_pieces)
  finally show ?thesis
    by (simp add: parameterDocument_def)
qed

subsection \<open>The string fields in the document\<close>

lemma fieldText_escapeXml: "fieldText s = escapeXml (normText s)"
  by (simp add: fieldText_def escapeXml_map)

lemma rendererType_element:
  assumes "renderEnabled st"
  shows "\<exists>pre post. generateLotusParamXML st =
     pre @ ''<renderer_type_name>'' @ fieldText (rendererType st)
     @ ''</renderer_type_name>'' @ post"
proof -
  have "generateLotusParamXML st =
      (''<lotus_param><render_interface><publish_render>'' @ booleanToString (publishRender st)
        @ ''</publish_render>'')
      @ ''<renderer_type_name>'' @ fieldText (rendererType st) @ ''</renderer_type_name>''
      @ (''</render_interface>'' @ physicsElement st @ waypointFollowerElement st
         @ ''</lotus_param>'')"
    using assms
    by (simp add: generateLotusParamXML_elements parameterDocument_def renderElement_def)
  then show ?thesis by blast
qed

lemma initState_element:
  assumes "physicsEnabled st"
  shows "\<exists>pre post. generateLotusParamXML st =
     pre @ ''<init_state>'' @ fieldText (initState st) @ ''</init_state>'' @ post"
proof -
  have "generateLotusParamXML st =
      (''<lotus_param>'' @ renderElement st @ ''<physics_engine_interface>''
        @ concat (map (modeElement st) (filter (physicsModes st) physicsModeKeys)))
      @ ''<init_state>'' @ fieldText (initState st) @ ''</init_state>''
      @ (''</physics_engine_interface>'' @ waypointFollowerElement st @ ''</lotus_param>'')"
    using assms
    by (simp add: generateLotusParamXML_elements parameterDocument_def physicsElement_def)
  then show ?thesis by blast
qed

lemma mode_fields:
  assumes "physicsEnabled st" and "physicsModes st m"
  shows "\<exists>pre post. generateLotusParamXML st =
     pre @ ''<ConnectionType>'' @ fieldText (connectionType (physicsConfig st m))
     @ ''</ConnectionType><uri>'' @ fieldText (uri (physicsConfig st m))
     @ ''</uri><thrusters>''
     @ concat (map thrusterField (enumerate 0 (thrusters (physicsConfig st m))))
     @ ''</thrusters>'' @ post"
proof -
  have "m \<in> set physicsModeKeys"
    by (cases m) (simp_all add: physicsModeKeys_def)
  with assms(2) have "m \<in> set (filter (physicsModes st) physicsModeKeys)" by simp
  from split_list [OF this]
  obtain ms1 ms2 where ms: "filter (physicsModes st) physicsModeKeys = ms1 @ m # ms2"
    by blast
  have "generateLotusParamXML st =
      (''<lotus_param>'' @ renderElement st @ ''<physics_engine_interface>''
        @ concat (map (modeElement st) ms1) @ ''<'' @ modeKey m @ ''>'')
      @ ''<ConnectionType>'' @ fieldText (connectionType (physicsConfig st m))
      @ ''</ConnectionType><uri>'' @ fieldText (uri (physicsConfig st m))
      @ ''</uri><thrusters>''
      @ concat (map thrusterField (enumerate 0 (thrusters (physicsConfig st m))))
      @ ''</thrusters>''
      @ (''</'' @ modeKey m @ ''>'' @ concat (map (modeElement st) ms2)
         @ ''<init_state>'' @ fieldText (initState st)
         @ ''</init_state></physics_engine_interface>'' @ waypointFollowerElement st
         @ ''</lotus_param>'')"
    using assms(1)
    by (simp add: generateLotusParamXML_elements parameterDocument_def physicsElement_def ms
        modeElement_def Let_def)
  then show ?thesis by blast
qed

subsection \<open>A state with reserved characters in every string field\<close>

lemma digits_25: "digits 25 = ''25''"
  by (simp add: digits.simps [of 25] digits_small)

lemma replicate_values:
  "replicate (Suc 0) c = [c]" "replicate 2 c = [c, c]"
  by (simp_all add: numeral_2_eq_2)

lemma printed_0_5: "finiteToString 5 0 = ''0.5''"
  by (simp add: finiteToString_def digits_small Let_def)

lemma printed_0_005: "finiteToString 5 (- 2) = ''0.005''"
  by (simp add: finiteToString_def digits_small Let_def replicate_values)

lemma printed_0_01: "finiteToString 1 (- 1) = ''0.01''"
  by (simp add: finiteToString_def digits_small Let_def replicate_values)

lemma printed_90: "finiteToString 9 2 = ''90''"
  by (simp add: finiteToString_def digits_small Let_def replicate_values)

lemma printed_250: "finiteToString 25 3 = ''250''"
  by (simp add: finiteToString_def digits_25 Let_def replicate_values)

lemma fieldText_values:
  "fieldText ''a<b>&c'' = ''a&lt;b&gt;&amp;c''"
  "fieldText ''R&D'' = ''R&amp;D''"
  "fieldText [CHR 0x22, CHR ''u'', CHR 0x27] = ''&quot;u&apos;''"
  "fieldText ''t&1'' = ''t&amp;1''"
  "fieldText ''A&B'' = ''A&amp;B''"
  by (simp_all add: fieldText_def normText_def removeLineBreaks_def escapeChar_def is_space_def)

lemma number_values:
  "finiteToString 5 0 = ''0.5''"
  "finiteToString 5 (- 2) = ''0.005''"
  "finiteToString (Suc 0) (- 1) = ''0.01''"
  "finiteToString 9 2 = ''90''"
  "finiteToString 25 3 = ''250''"
  using printed_0_5 printed_0_005 printed_0_01 printed_90 printed_250 by simp_all

lemma escapingState_document: "parameterDocument escapingState
       = ''<lotus_param><render_interface><publish_render>true</publish_render><renderer_type_name>a&lt;b&gt;&amp;c</renderer_type_name></render_interface><physics_engine_interface><aerial><ConnectionType>R&amp;D</ConnectionType><uri>&quot;u&apos;</uri><thrusters><thrusters1>t&amp;1</thrusters1></thrusters></aerial><init_state>A&amp;B</init_state></physics_engine_interface><waypoint_follower><follower><loop>true</loop><linear_acceleration_limit>0.5</linear_acceleration_limit><angular_acceleration_limit>0.005</angular_acceleration_limit><angular_velocity_limit>0.01</angular_velocity_limit><line><direction>90</direction><length>250</length></line></follower></waypoint_follower></lotus_param>''"
    by (simp add: parameterDocument_def renderElement_def physicsElement_def modeElement_def
      waypointFollowerElement_def followerElement_def limitElements_def thrusterField_pair
      physicsModeKeys_def escapingState_def exampleFollower_def digits_small
      booleanToString_def fieldText_values number_values)

text \<open>
  C3. Escaping replaces each of the five reserved characters of a string by its entity
  and keeps every other character. The serialized document of every state is the
  document \<open>parameterDocument\<close> of its elements, in which the renderer type, the
  connection type, the URI, every thruster name and the initial state are written as
  \<open>fieldText\<close> of the field: the escaped field after whitespace normalization, which is
  also the escaped form of the whitespace-normalized field, and whitespace normalization
  keeps every reserved character of the field. So each reserved character of a string
  field is in the document as its entity, in the element of that field. Beyond that, the
  reserved characters occur in the document only as the delimiters of tags and as the
  \<open>&\<close> of one of the five entities. Numbers and booleans are written as printed; their
  printed forms hold none of the reserved characters and are what escaping would return.
\<close>

theorem reserved_characters_escaped:
  "escapeXml str = concat (map escapeChar str)
   \<and> fieldText str = normText (escapeXml str)
   \<and> fieldText str = escapeXml (normText str)
   \<and> filter reserved (normText str) = filter reserved str
   \<and> generateLotusParamXML st = parameterDocument st
   \<and> (renderEnabled st \<longrightarrow>
        (\<exists>pre post. generateLotusParamXML st =
           pre @ ''<renderer_type_name>'' @ fieldText (rendererType st)
           @ ''</renderer_type_name>'' @ post))
   \<and> (physicsEnabled st \<longrightarrow>
        (\<exists>pre post. generateLotusParamXML st =
           pre @ ''<init_state>'' @ fieldText (initState st) @ ''</init_state>'' @ post))
   \<and> (physicsEnabled st \<and> physicsModes st m \<longrightarrow>
        (\<exists>pre post. generateLotusParamXML st =
           pre @ ''<ConnectionType>'' @ fieldText (connectionType (physicsConfig st m))
           @ ''</ConnectionType><uri>'' @ fieldText (uri (physicsConfig st m))
           @ ''</uri><thrusters>''
           @ concat (map thrusterField (enumerate 0 (thrusters (physicsConfig st m))))
           @ ''</thrusters>'' @ post))
   \<and> thrusterField (i, t)
       = ''<thrusters'' @ digits (i + 1) @ ''>'' @ fieldText t
         @ ''</thrusters'' @ digits (i + 1) @ ''>''
   \<and> wellEscaped (generateLotusParamXML st)
   \<and> escapeXml (numberToString x) = numberToString x
   \<and> escapeXml (booleanToString b) = booleanToString b"
proof (intro conjI impI)
  show "escapeXml str = concat (map escapeChar str)"
    by (rule escapeXml_map)
  show "fieldText str = normText (escapeXml str)"
    by (rule normText_escapeXml [symmetric])
  show "fieldText str = escapeXml (normText str)"
    by (rule fieldText_escapeXml)
  show "filter reserved (normText str) = filter reserved str"
    by (rule filter_reserved_normText)
  show "generateLotusParamXML st = parameterDocument st"
    by (rule generateLotusParamXML_elements)
  show "thrusterField (i, t)
       = ''<thrusters'' @ digits (i + 1) @ ''>'' @ fieldText t
         @ ''</thrusters'' @ digits (i + 1) @ ''>''"
    by (rule thrusterField_pair)
  show "wellEscaped (generateLotusParamXML st)"
    by (rule wellEscaped_document)
  show "escapeXml (numberToString x) = numberToString x"
    by (rule escapeXml_number)
  show "escapeXml (booleanToString b) = booleanToString b"
    by (rule escapeXml_boolean)
next
  assume "renderEnabled st"
  then show "\<exists>pre post. generateLotusParamXML st =
           pre @ ''<renderer_type_name>'' @ fieldText (rendererType st)
           @ ''</renderer_type_name>'' @ post"
    by (rule rendererType_element)
next
  assume "physicsEnabled st"
  then show "\<exists>pre post. generateLotusParamXML st =
           pre @ ''<init_state>'' @ fieldText (initState st) @ ''</init_state>'' @ post"
    by (rule initState_element)
next
  assume "physicsEnabled st \<and> physicsModes st m"
  then show "\<exists>pre post. generateLotusParamXML st =
           pre @ ''<ConnectionType>'' @ fieldText (connectionType (physicsConfig st m))
           @ ''</ConnectionType><uri>'' @ fieldText (uri (physicsConfig st m))
           @ ''</uri><thrusters>''
           @ concat (map thrusterField (enumerate 0 (thrusters (physicsConfig st m))))
           @ ''</thrusters>'' @ post"
    using mode_fields by blast
qed

theorem reserved_characters_escaped_witness:
  "renderEnabled escapingState \<and> physicsEnabled escapingState
   \<and> physicsModes escapingState Aerial
   \<and> rendererType escapingState = ''a<b>&c'' \<and> initState escapingState = ''A&B''
   \<and> physicsConfig escapingState Aerial
       = \<lparr>connectionType = ''R&D'', uri = [CHR 0x22, CHR ''u'', CHR 0x27],
          thrusters = [''t&1'']\<rparr>
   \<and> generateLotusParamXML escapingState
       = ''<lotus_param><render_interface><publish_render>true</publish_render><renderer_type_name>a&lt;b&gt;&amp;c</renderer_type_name></render_interface><physics_engine_interface><aerial><ConnectionType>R&amp;D</ConnectionType><uri>&quot;u&apos;</uri><thrusters><thrusters1>t&amp;1</thrusters1></thrusters></aerial><init_state>A&amp;B</init_state></physics_engine_interface><waypoint_follower><follower><loop>true</loop><linear_acceleration_limit>0.5</linear_acceleration_limit><angular_acceleration_limit>0.005</angular_acceleration_limit><angular_velocity_limit>0.01</angular_velocity_limit><line><direction>90</direction><length>250</length></line></follower></waypoint_follower></lotus_param>''
   \<and> (\<exists>pre post. generateLotusParamXML escapingState =
         pre @ ''<renderer_type_name>a&lt;b&gt;&amp;c</renderer_type_name>'' @ post)
   \<and> (\<exists>pre post. generateLotusParamXML escapingState =
         pre @ ''<init_state>A&amp;B</init_state>'' @ post)
   \<and> (\<exists>pre post. generateLotusParamXML escapingState =
         pre @ ''<ConnectionType>R&amp;D</ConnectionType><uri>&quot;u&apos;</uri><thrusters><thrusters1>t&amp;1</thrusters1></thrusters>'' @ post)
   \<and> wellEscaped (generateLotusParamXML escapingState)
   \<and> escapeXml ''a<b>&c'' = ''a&lt;b&gt;&amp;c''
   \<and> filter reserved (normText ''a<b>&c'') = ''<>&''"
proof -
  note T = reserved_characters_escaped
    [of "''a<b>&c''" escapingState Aerial 0 "''t&1''" Zero True]
  have st: "renderEnabled escapingState" "physicsEnabled escapingState"
    "physicsModes escapingState Aerial"
    "rendererType escapingState = ''a<b>&c''" "initState escapingState = ''A&B''"
    "physicsConfig escapingState Aerial
       = \<lparr>connectionType = ''R&D'', uri = [CHR 0x22, CHR ''u'', CHR 0x27],
          thrusters = [''t&1'']\<rparr>"
    by (simp_all add: escapingState_def)
  from T have "generateLotusParamXML escapingState = parameterDocument escapingState"
    by blast
  then have gen: "generateLotusParamXML escapingState
       = ''<lotus_param><render_interface><publish_render>true</publish_render><renderer_type_name>a&lt;b&gt;&amp;c</renderer_type_name></render_interface><physics_engine_interface><aerial><ConnectionType>R&amp;D</ConnectionType><uri>&quot;u&apos;</uri><thrusters><thrusters1>t&amp;1</thrusters1></thrusters></aerial><init_state>A&amp;B</init_state></physics_engine_interface><waypoint_follower><follower><loop>true</loop><linear_acceleration_limit>0.5</linear_acceleration_limit><angular_acceleration_limit>0.005</angular_acceleration_limit><angular_velocity_limit>0.01</angular_velocity_limit><line><direction>90</direction><length>250</length></line></follower></waypoint_follower></lotus_param>''"
    by (simp only: escapingState_document)
  from T st(1) obtain pre1 post1 where "generateLotusParamXML escapingState =
      pre1 @ ''<renderer_type_name>'' @ fieldText (rendererType escapingState)
      @ ''</renderer_type_name>'' @ post1"
    by blast
  then have "generateLotusParamXML escapingState =
      pre1 @ (''<renderer_type_name>'' @ fieldText ''a<b>&c'' @ ''</renderer_type_name>'') @ post1"
    by (simp only: st append_assoc)
  also have "''<renderer_type_name>'' @ fieldText ''a<b>&c'' @ ''</renderer_type_name>''
      = ''<renderer_type_name>a&lt;b&gt;&amp;c</renderer_type_name>''"
    by (simp add: fieldText_values)
  finally have r: "\<exists>pre post. generateLotusParamXML escapingState =
      pre @ ''<renderer_type_name>a&lt;b&gt;&amp;c</renderer_type_name>'' @ post"
    by blast
  from T st(2) obtain pre2 post2 where "generateLotusParamXML escapingState =
      pre2 @ ''<init_state>'' @ fieldText (initState escapingState) @ ''</init_state>'' @ post2"
    by blast
  then have "generateLotusParamXML escapingState =
      pre2 @ (''<init_state>'' @ fieldText ''A&B'' @ ''</init_state>'') @ post2"
    by (simp only: st append_assoc)
  also have "''<init_state>'' @ fieldText ''A&B'' @ ''</init_state>''
      = ''<init_state>A&amp;B</init_state>''"
    by (simp add: fieldText_values)
  finally have i: "\<exists>pre post. generateLotusParamXML escapingState =
      pre @ ''<init_state>A&amp;B</init_state>'' @ post"
    by blast
  from T st(2,3) obtain pre3 post3 where "generateLotusParamXML escapingState =
      pre3 @ ''<ConnectionType>''
      @ fieldText (connectionType (physicsConfig escapingState Aerial))
      @ ''</ConnectionType><uri>'' @ fieldText (uri (physicsConfig escapingState Aerial))
      @ ''</uri><thrusters>''
      @ concat (map thrusterField
          (enumerate 0 (thrusters (physicsConfig escapingState Aerial))))
      @ ''</thrusters>'' @ post3"
    by blast
  then have "generateLotusParamXML escapingState =
      pre3 @ (''<ConnectionType>''
        @ fieldText (connectionType (physicsConfig escapingState Aerial))
        @ ''</ConnectionType><uri>'' @ fieldText (uri (physicsConfig escapingState Aerial))
        @ ''</uri><thrusters>''
        @ concat (map thrusterField
            (enumerate 0 (thrusters (physicsConfig escapingState Aerial))))
        @ ''</thrusters>'') @ post3"
    by (simp only: append_assoc)
  also have "''<ConnectionType>''
        @ fieldText (connectionType (physicsConfig escapingState Aerial))
        @ ''</ConnectionType><uri>'' @ fieldText (uri (physicsConfig escapingState Aerial))
        @ ''</uri><thrusters>''
        @ concat (map thrusterField
            (enumerate 0 (thrusters (physicsConfig escapingState Aerial))))
        @ ''</thrusters>''
      = ''<ConnectionType>R&amp;D</ConnectionType><uri>&quot;u&apos;</uri><thrusters><thrusters1>t&amp;1</thrusters1></thrusters>''"
    by (simp add: st fieldText_values thrusterField_pair digits_small)
  finally have m: "\<exists>pre post. generateLotusParamXML escapingState =
      pre @ ''<ConnectionType>R&amp;D</ConnectionType><uri>&quot;u&apos;</uri><thrusters><thrusters1>t&amp;1</thrusters1></thrusters>'' @ post"
    by blast
  from T have w: "wellEscaped (generateLotusParamXML escapingState)"
    by blast
  from T have "escapeXml ''a<b>&c'' = concat (map escapeChar ''a<b>&c'')"
    by blast
  then have e: "escapeXml ''a<b>&c'' = ''a&lt;b&gt;&amp;c''"
    by (simp add: escapeChar_def)
  from T have "filter reserved (normText ''a<b>&c'') = filter reserved ''a<b>&c''"
    by blast
  then have f: "filter reserved (normText ''a<b>&c'') = ''<>&''"
    by (simp add: reserved_def)
  from st gen r i m w e f show ?thesis
    by (intro conjI)
qed

section \<open>The telemetry client: results\<close>

lemma every_itemCheck:
  "every itemCheck items = Inr True \<longleftrightarrow>
   list_all (\<lambda>item. hasTruthy ''vessel_name'' item \<and> hasTruthy ''pose'' item) items"
proof (induction items)
  case Nil
  show ?case by simp
next
  case (Cons a items)
  show ?case
    using Cons.IH
    by (cases a) (auto simp: itemCheck_def hasTruthy_def split: sum.splits if_splits)
qed

text \<open>
  C7. The vessel-data callback is invoked exactly when the message parses to an array in
  which every element has a truthy \<open>vessel_name\<close> and a truthy \<open>pose\<close>; it then receives
  that array and nothing is written to the console. Any other message leaves the
  delivered batches and the rest of the state as they were and writes exactly one
  diagnostic, a warning or an error.
\<close>

theorem handleMessage_validation:
  "(validBatch parsed \<longrightarrow>
      (\<exists>items. parsed = Some (JArray items)
         \<and> handleMessage c parsed = c\<lparr>callbackCalls := callbackCalls c @ [items]\<rparr>))
   \<and> (\<not> validBatch parsed \<longrightarrow>
      handleMessage c parsed
        = c\<lparr>console := console c @ [(WarnMsg, ''Received unexpected data format:'')]\<rparr>
      \<or> handleMessage c parsed
        = c\<lparr>console := console c @ [(ErrorMsg, ''Error parsing incoming data:'')]\<rparr>)"
proof (cases parsed)
  case None
  then show ?thesis
    by (simp add: validBatch_def handleMessage_def consoleWrite_def)
next
  case (Some data)
  show ?thesis
  proof (cases "\<exists>items. data = JArray items")
    case False
    with Some show ?thesis
      by (cases data) (simp_all add: validBatch_def handleMessage_def consoleWrite_def)
  next
    case True
    then obtain items where d: "data = JArray items" ..
    show ?thesis
    proof (cases "every itemCheck items")
      case (Inl e)
      with Some d every_itemCheck [of items] show ?thesis
        by (simp add: validBatch_def handleMessage_def consoleWrite_def)
    next
      case (Inr ok)
      with Some d every_itemCheck [of items] show ?thesis
        by (cases ok) (simp_all add: validBatch_def handleMessage_def consoleWrite_def)
    qed
  qed
qed

theorem handleMessage_validation_witness:
  "validBatch goodMessage \<and> \<not> validBatch badMessage
   \<and> callbackCalls (handleMessage exampleClient goodMessage) \<noteq> callbackCalls exampleClient
   \<and> callbackCalls (handleMessage exampleClient badMessage) = callbackCalls exampleClient
   \<and> length (console (handleMessage exampleClient badMessage)) = 1"
  using handleMessage_validation [of goodMessage exampleClient]
    handleMessage_validation [of badMessage exampleClient]
  by (auto simp add: validBatch_def hasTruthy_def goodMessage_def badMessage_def exampleClient_def)

text \<open>
  C8. \<open>connect()\<close> on a client that already holds a socket raises nothing, constructs no
  socket and leaves the client as it was, apart from two console lines.
\<close>

theorem connect_when_connected_is_noop:
  assumes "ws c \<noteq> None"
  shows "connect accepts c =
     (None, c\<lparr>console := console c @ [(LogMsg, ''WebSocket connecting.''),
                                        (LogMsg, ''WebSocket is already connected.'')]\<rparr>)"
  using assms by (auto simp add: connect_def consoleWrite_def Let_def)

theorem connect_when_connected_is_noop_witness:
  "ws exampleClient \<noteq> None
   \<and> fst (connect (\<lambda>u. True) exampleClient) = None
   \<and> sockets (snd (connect (\<lambda>u. True) exampleClient)) = sockets exampleClient
   \<and> ws (snd (connect (\<lambda>u. True) exampleClient)) = ws exampleClient"
  using connect_when_connected_is_noop [of exampleClient "\<lambda>u. True"]
  by (simp add: exampleClient_def)

lemma step_ws_kept: "ws c = Some i \<Longrightarrow> ws (step accepts c ev) = Some i"
  by (cases ev)
     (auto simp: connect_def disconnect_def sendClientName_def onopen_def onerror_def
        onclose_def onmessage_def handleMessage_def consoleWrite_def Let_def
        split: option.splits json.splits sum.splits)

lemma step_sockets_kept:
  "ws c = Some i \<Longrightarrow> length (sockets (step accepts c ev)) = length (sockets c)"
  by (cases ev)
     (auto simp: connect_def disconnect_def sendClientName_def onopen_def onerror_def
        onclose_def onmessage_def handleMessage_def consoleWrite_def Let_def
        split: option.splits json.splits sum.splits)

lemma run_kept:
  "ws c = Some i \<Longrightarrow>
   ws (run accepts c evs) = Some i \<and> length (sockets (run accepts c evs)) = length (sockets c)"
  unfolding run_def
  by (induction evs arbitrary: c) (simp_all add: step_ws_kept step_sockets_kept)

lemma step_atMostOneSocket: "atMostOneSocket c \<Longrightarrow> atMostOneSocket (step accepts c ev)"
  unfolding atMostOneSocket_def
  by (cases ev)
     (auto simp: connect_def disconnect_def sendClientName_def onopen_def onerror_def
        onclose_def onmessage_def handleMessage_def consoleWrite_def Let_def
        split: option.splits json.splits sum.splits)

lemma run_atMostOneSocket: "atMostOneSocket c \<Longrightarrow> atMostOneSocket (run accepts c evs)"
  unfolding run_def
  by (induction evs arbitrary: c) (simp_all add: step_atMostOneSocket)


lemma connect_sets_ws:
  "fst (connect accepts c) = None \<Longrightarrow> ws (snd (connect accepts c)) \<noteq> None"
  by (auto simp: connect_def consoleWrite_def Let_def split: option.splits if_splits)

lemma connect_noop_sockets:
  "ws c = Some i \<Longrightarrow>
   fst (connect accepts c) = None \<and> ws (snd (connect accepts c)) = Some i
   \<and> sockets (snd (connect accepts c)) = sockets c"
  by (simp add: connect_def consoleWrite_def Let_def)

lemma atMostOneSocket_newClient: "atMostOneSocket (newClient ip inst)"
  by (simp add: atMostOneSocket_def newClient_def)

text \<open>
  C10. A client constructs at most one socket in its lifetime: whatever happens to a
  new client, it never holds more than one socket. \<open>disconnect()\<close> keeps the stored
  reference, so once a \<open>connect()\<close> has returned, the reference and the number of sockets
  stay the same through every later call and socket event, a \<open>disconnect()\<close> included,
  and a later \<open>connect()\<close> returns without constructing a socket. A new client has no
  socket and constructs one on \<open>connect()\<close> when the URL is accepted.
\<close>

theorem one_socket_per_client:
  "length (sockets (run accepts (newClient ip inst) evs)) \<le> 1
   \<and> ws (disconnect c) = ws c
   \<and> (fst (connect accepts c) = None \<longrightarrow>
        ws (snd (connect accepts c)) \<noteq> None
        \<and> ws (run accepts (snd (connect accepts c)) evs) = ws (snd (connect accepts c))
        \<and> length (sockets (run accepts (snd (connect accepts c)) evs))
            = length (sockets (snd (connect accepts c)))
        \<and> fst (connect accepts (run accepts (snd (connect accepts c)) evs)) = None
        \<and> sockets (snd (connect accepts (run accepts (snd (connect accepts c)) evs)))
            = sockets (run accepts (snd (connect accepts c)) evs))
   \<and> (accepts (''ws://'' @ getAddressIp (newClient ip inst) @ '':5000'') \<longrightarrow>
        length (sockets (snd (connect accepts (newClient ip inst)))) = 1)"
proof (intro conjI impI)
  have "atMostOneSocket (run accepts (newClient ip inst) evs)"
    by (rule run_atMostOneSocket [OF atMostOneSocket_newClient])
  then show "length (sockets (run accepts (newClient ip inst) evs)) \<le> 1"
    by (auto simp: atMostOneSocket_def)
next
  show "ws (disconnect c) = ws c"
    by (simp add: disconnect_def consoleWrite_def split: option.splits)
next
  assume ok: "fst (connect accepts c) = None"
  then obtain i where i: "ws (snd (connect accepts c)) = Some i"
    using connect_sets_ws [of accepts c] by auto
  then show "ws (snd (connect accepts c)) \<noteq> None" by simp
  note kept = run_kept [OF i, of accepts evs]
  from kept i show "ws (run accepts (snd (connect accepts c)) evs) = ws (snd (connect accepts c))"
    by simp
  from kept show "length (sockets (run accepts (snd (connect accepts c)) evs))
      = length (sockets (snd (connect accepts c)))"
    by simp
  from kept have j: "ws (run accepts (snd (connect accepts c)) evs) = Some i" by simp
  from connect_noop_sockets [OF j, of accepts]
  show "fst (connect accepts (run accepts (snd (connect accepts c)) evs)) = None"
    and "sockets (snd (connect accepts (run accepts (snd (connect accepts c)) evs)))
      = sockets (run accepts (snd (connect accepts c)) evs)"
    by simp_all
next
  assume "accepts (''ws://'' @ getAddressIp (newClient ip inst) @ '':5000'')"
  then show "length (sockets (snd (connect accepts (newClient ip inst)))) = 1"
    by (simp add: connect_def consoleWrite_def Let_def newClient_def getAddressIp_def)
qed

theorem one_socket_per_client_witness:
  "fst (connect (\<lambda>u. True) (newClient None None)) = None
   \<and> (\<lambda>u. True) (''ws://'' @ getAddressIp (newClient None None) @ '':5000'')
   \<and> length (sockets (run (\<lambda>u. True) (snd (connect (\<lambda>u. True) (newClient None None)))
                 [SocketOpen, Disconnect, SocketClose True, Connect])) = 1
   \<and> ws (run (\<lambda>u. True) (snd (connect (\<lambda>u. True) (newClient None None)))
                 [SocketOpen, Disconnect, SocketClose True, Connect]) = Some 0"
  using one_socket_per_client [of "\<lambda>u. True" None None
      "[SocketOpen, Disconnect, SocketClose True, Connect]" "newClient None None"]
  by (simp add: connect_def consoleWrite_def Let_def newClient_def getAddressIp_def)

section \<open>The vessel marker: results\<close>

lemma bitLength_le: "n < 2 ^ k \<Longrightarrow> bitLength n \<le> k"
proof (induction k arbitrary: n)
  case 0
  then show ?case by (simp add: bitLength.simps)
next
  case (Suc k)
  from Suc.prems have "n div 2 < 2 ^ k" by simp
  then have "bitLength (n div 2) \<le> k" by (rule Suc.IH)
  then show ?case by (subst bitLength.simps) simp
qed

lemma round64_exact:
  assumes "\<bar>m\<bar> < 2 ^ 53" and "- 1074 \<le> e" and "e \<le> 971"
  shows "round64 m e = Fin64 m e"
proof -
  from assms(1) have "nat \<bar>m\<bar> < 2 ^ 53" by (simp add: nat_less_iff)
  then have "bitLength (nat \<bar>m\<bar>) \<le> 53" by (rule bitLength_le)
  with assms(2,3) show ?thesis
    by (simp add: round64_def Let_def)
qed

lemma isDouble_round: "isDouble (Fin64 m e) \<Longrightarrow> round64 m e = Fin64 m e"
  by (simp add: round64_exact)









end
